theory Spec2Isabelle
  imports Complex_Main "HOL-Library.Multiset" "HOL-Library.Product_Lexorder"
begin

section \<open>Watch folder processor: strings and priorities\<close>

text \<open>
  The development embeds \<^verbatim>\<open>src/python/processors/watch_folder.py\<close>: the event handler
  \<^verbatim>\<open>WatchFolderHandler\<close>, the \<^verbatim>\<open>ProcessingQueue\<close> and the
  \<^verbatim>\<open>WatchFolderProcessor\<close> with its worker loop, together with
  \<^verbatim>\<open>validate_audio_file\<close> of \<^verbatim>\<open>src/python/utils/file_manager.py\<close>.

  Strings are byte lists. \<^verbatim>\<open>str.lower()\<close> is modelled on the ASCII letters; the only
  code points outside ASCII whose Python lower-casing contains an ASCII letter are U+212A
  (giving \<^verbatim>\<open>k\<close>) and U+0130 (giving \<^verbatim>\<open>i\<close> followed by U+0307), and neither can turn a
  string into one of the keys of the priority table or one of the supported extensions.
\<close>

definition lower_char :: "char \<Rightarrow> char" where
  "lower_char c =
     (case map_of (zip ''ABCDEFGHIJKLMNOPQRSTUVWXYZ'' ''abcdefghijklmnopqrstuvwxyz'') c of
        None \<Rightarrow> c
      | Some d \<Rightarrow> d)"

definition upper_char :: "char \<Rightarrow> char" where
  "upper_char c =
     (case map_of (zip ''abcdefghijklmnopqrstuvwxyz'' ''ABCDEFGHIJKLMNOPQRSTUVWXYZ'') c of
        None \<Rightarrow> c
      | Some d \<Rightarrow> d)"

definition lower :: "string \<Rightarrow> string" where
  "lower s = map lower_char s"

definition upper :: "string \<Rightarrow> string" where
  "upper s = map upper_char s"

text \<open>The dictionary literal \<^verbatim>\<open>priority_map\<close> of \<^verbatim>\<open>enqueue_file\<close>.\<close>

definition priority_map :: "string \<rightharpoonup> int" where
  "priority_map = [''high'' \<mapsto> 0, ''medium'' \<mapsto> 1, ''low'' \<mapsto> 2]"

text \<open>\<^verbatim>\<open>priority_map.get(priority.lower(), 1)\<close>\<close>

definition priority_value :: "string \<Rightarrow> int" where
  "priority_value priority =
     (case priority_map (lower priority) of None \<Rightarrow> 1 | Some v \<Rightarrow> v)"


section \<open>ProcessingQueue\<close>

text \<open>The task dictionary built by \<^verbatim>\<open>enqueue_file\<close>.\<close>

record task =
  file_path :: string
  priority :: string
  enqueued_time :: string
  status :: string

text \<open>
  An entry of the underlying \<^verbatim>\<open>queue.PriorityQueue\<close> is the tuple
  \<^verbatim>\<open>(priority, task_id, item)\<close>. Python compares tuples lexicographically; the third
  component (a dict, which has no order) is reached only when two entries agree on
  priority and task id, which \<^verbatim>\<open>ProcessingQueue.enqueue\<close> rules out by numbering the
  entries. The comparison is therefore the one on the pair \<open>entry_key\<close>.
\<close>

type_synonym entry = "int \<times> nat \<times> task"

definition entry_key :: "entry \<Rightarrow> int \<times> nat" where
  "entry_key e = (fst e, fst (snd e))"

definition entry_item :: "entry \<Rightarrow> task" where
  "entry_item e = snd (snd e)"

text \<open>
  The standard library's \<^verbatim>\<open>PriorityQueue\<close> is modelled by its contract: \<^verbatim>\<open>put\<close>
  adds an entry, \<^verbatim>\<open>get_nowait\<close> removes and returns the lowest entry, or raises
  \<^verbatim>\<open>queue.Empty\<close> (here \<open>None\<close>) when there is none.
\<close>

fun pq_min :: "entry \<Rightarrow> entry list \<Rightarrow> entry" where
  "pq_min m [] = m"
| "pq_min m (e # es) = pq_min (if entry_key e < entry_key m then e else m) es"

definition pq_put :: "entry \<Rightarrow> entry list \<Rightarrow> entry list" where
  "pq_put e es = es @ [e]"

definition pq_get_nowait :: "entry list \<Rightarrow> (entry \<times> entry list) option" where
  "pq_get_nowait es =
     (case es of
        [] \<Rightarrow> None
      | e # es' \<Rightarrow> (let m = pq_min e es' in Some (m, remove1 m es)))"

record processing_queue =
  queue :: "entry list"
  task_id :: nat

text \<open>\<^verbatim>\<open>ProcessingQueue.__init__\<close>\<close>

definition new_queue :: processing_queue where
  "new_queue = \<lparr>queue = [], task_id = 0\<rparr>"

text \<open>\<^verbatim>\<open>ProcessingQueue.enqueue\<close>: the counter is incremented, then the entry is put.\<close>

definition enqueue :: "task \<Rightarrow> int \<Rightarrow> processing_queue \<Rightarrow> processing_queue" where
  "enqueue item prio q =
     (let n = task_id q + 1
      in q\<lparr>task_id := n, queue := pq_put (prio, n, item) (queue q)\<rparr>)"

text \<open>\<^verbatim>\<open>ProcessingQueue.dequeue\<close>: \<^verbatim>\<open>get_nowait\<close>, with \<^verbatim>\<open>queue.Empty\<close> turned into \<^verbatim>\<open>None\<close>.\<close>

definition dequeue :: "processing_queue \<Rightarrow> task option \<times> processing_queue" where
  "dequeue q =
     (case pq_get_nowait (queue q) of
        None \<Rightarrow> (None, q)
      | Some (e, es) \<Rightarrow> (Some (entry_item e), q\<lparr>queue := es\<rparr>))"

definition size_q :: "processing_queue \<Rightarrow> int" where
  "size_q q = int (length (queue q))"

definition empty_q :: "processing_queue \<Rightarrow> bool" where
  "empty_q q = (queue q = [])"


section \<open>Paths, the outside world and file validation\<close>

text \<open>
  Paths are the strings \<^verbatim>\<open>str(file_path)\<close> of normalised POSIX paths; the functions
  below are \<^verbatim>\<open>pathlib\<close>'s \<^verbatim>\<open>name\<close>, \<^verbatim>\<open>parent\<close>, \<^verbatim>\<open>suffix\<close>, \<^verbatim>\<open>stem\<close> and \<^verbatim>\<open>/\<close>.
\<close>

definition path_name :: "string \<Rightarrow> string" where
  "path_name p = rev (takeWhile (\<lambda>c. c \<noteq> CHR ''/'') (rev p))"

definition path_parent :: "string \<Rightarrow> string" where
  "path_parent p =
     (let d = dropWhile (\<lambda>c. c \<noteq> CHR ''/'') (rev p)
      in if d = [] then ''.'' else if tl d = [] then ''/'' else rev (tl d))"

text \<open>
  \<^verbatim>\<open>i = name.rfind('.')\<close>; the suffix is \<^verbatim>\<open>name[i:]\<close> when \<^verbatim>\<open>0 < i < len(name) - 1\<close>
  and empty otherwise.
\<close>

definition path_suffix :: "string \<Rightarrow> string" where
  "path_suffix p =
     (let n = path_name p; ext = rev (takeWhile (\<lambda>c. c \<noteq> CHR ''.'') (rev n))
      in if CHR ''.'' \<in> set n \<and> ext \<noteq> [] \<and> length ext + 1 < length n
         then CHR ''.'' # ext else [])"

definition path_stem :: "string \<Rightarrow> string" where
  "path_stem p =
     (let n = path_name p
      in take (length n - length (path_suffix p)) n)"

definition path_join :: "string \<Rightarrow> string \<Rightarrow> string" where
  "path_join p c =
     (if c \<noteq> [] \<and> hd c = CHR ''/'' then c
      else if p = ''.'' then c
      else if p = ''/'' then ''/'' @ c
      else p @ ''/'' @ c)"

text \<open>What \<^verbatim>\<open>soundfile.info\<close> reports about a file.\<close>

record audio_info =
  samplerate :: int
  frames :: int
  channels :: int

type_synonym metadata = "(string \<times> string) list"

text \<open>
  Everything the code obtains from outside during one call: the file system, the audio
  libraries and the clock. A call that can raise yields \<open>Some msg\<close> (or \<open>Inl msg\<close> when it
  otherwise returns a value), \<open>msg\<close> being \<^verbatim>\<open>str(e)\<close> of the exception, an instance of
  \<^verbatim>\<open>Exception\<close>. Times are real numbers for the floats of \<^verbatim>\<open>time.time()\<close>.
\<close>

record world =
  path_exists :: "string \<Rightarrow> bool"
  st_size :: "string \<Rightarrow> string + int"
  sf_info :: "string \<Rightarrow> string + audio_info"
  load_probe :: "string \<Rightarrow> string + nat"
  analyze_audio_metadata :: "string \<Rightarrow> string + metadata"
  mkdir :: "string \<Rightarrow> string option"
  copy2 :: "string \<Rightarrow> string \<Rightarrow> string option"
  import_audio_libs :: "string option"
  librosa_load :: "string \<Rightarrow> string option"
  process_full :: "string option"
  master_track :: "string \<Rightarrow> string option"
  sf_write :: "string \<Rightarrow> string option"
  unlink :: "string \<Rightarrow> string option"
  log_append :: "string \<Rightarrow> string option"
  time_now :: real
  time_start :: real
  time_end :: real
  mark_time :: "string \<Rightarrow> real"
  now_iso :: string
  stamp :: string

text \<open>\<^verbatim>\<open>get_supported_formats\<close> and \<^verbatim>\<open>is_audio_file\<close> of \<^verbatim>\<open>file_manager.py\<close>.\<close>

definition get_supported_formats :: "string list" where
  "get_supported_formats =
     [''.mp3'', ''.wav'', ''.flac'', ''.aiff'', ''.aif'', ''.m4a'', ''.ogg'', ''.opus'']"

definition is_audio_file :: "string \<Rightarrow> bool" where
  "is_audio_file fp = (lower (path_suffix fp) \<in> set get_supported_formats)"

fun join_with :: "string \<Rightarrow> string list \<Rightarrow> string" where
  "join_with sep [] = []"
| "join_with sep [x] = x"
| "join_with sep (x # y # ys) = x @ sep @ join_with sep (y # ys)"

text \<open>
  \<^verbatim>\<open>validate_audio_file\<close>: every exception raised inside is caught by its own
  \<^verbatim>\<open>except Exception\<close> and becomes the pair \<^verbatim>\<open>(False, "Validation error: ...")\<close>, the
  failure of the trial load becomes \<^verbatim>\<open>(False, "Failed to load audio: ...")\<close>.
\<close>

definition validate_audio_file :: "world \<Rightarrow> string \<Rightarrow> bool \<times> string" where
  "validate_audio_file w fp =
     (if \<not> path_exists w fp then (False, ''File does not exist'')
      else (case st_size w fp of
        Inl e \<Rightarrow> (False, ''Validation error: '' @ e)
      | Inr file_size \<Rightarrow>
          (if file_size = 0 then (False, ''File is empty'')
           else if \<not> is_audio_file fp
           then (False, ''Unsupported audio format. Supported: ''
                          @ join_with '', '' get_supported_formats)
           else (case sf_info w fp of
             Inl e \<Rightarrow> (False, ''Validation error: '' @ e)
           | Inr info \<Rightarrow>
               (if samplerate info \<le> 0 then (False, ''Invalid sample rate'')
                else
                  (let duration = real_of_int (frames info) / real_of_int (samplerate info)
                   in if duration \<le> 0 then (False, ''Audio has no duration'')
                      else if duration > 1800 then (False, ''Audio too long (max 30 minutes)'')
                      else
                        (let expected_min_size =
                               duration * real_of_int (samplerate info)
                                 * real_of_int (channels info) * 2
                         in if real_of_int file_size < expected_min_size * (1 / 10)
                            then (False, ''File size suspiciously small for duration'')
                            else (case load_probe w fp of
                              Inl e \<Rightarrow> (False, ''Failed to load audio: '' @ e)
                            | Inr audio_size \<Rightarrow>
                                (if audio_size = 0 then (False, ''Could not load audio data'')
                                 else (True, ''File is valid''))))))))))"


section \<open>WatchFolderHandler\<close>

record event =
  is_directory :: bool
  src_path :: string

record handler =
  processed_files :: "string set"
  last_processed :: "string \<rightharpoonup> real"

text \<open>\<^verbatim>\<open>WatchFolderHandler.__init__\<close>\<close>

definition new_handler :: handler where
  "new_handler = \<lparr>processed_files = {}, last_processed = Map.empty\<rparr>"

definition supported_exts :: "string list" where
  "supported_exts = [''.mp3'', ''.wav'', ''.flac'', ''.aiff'', ''.m4a'', ''.ogg'']"

text \<open>\<^verbatim>\<open>WatchFolderHandler._should_process\<close>\<close>

definition should_process :: "world \<Rightarrow> handler \<Rightarrow> string \<Rightarrow> bool" where
  "should_process w h fp =
     (if fp \<in> processed_files h then False
      else if lower (path_suffix fp) \<notin> set supported_exts then False
      else if \<not> fst (validate_audio_file w fp) then False
      else True)"

text \<open>\<^verbatim>\<open>WatchFolderHandler.mark_processed\<close>, \<open>t\<close> being the value of \<^verbatim>\<open>time.time()\<close>.\<close>

definition mark_processed :: "real \<Rightarrow> string \<Rightarrow> handler \<Rightarrow> handler" where
  "mark_processed t fp h =
     h\<lparr>processed_files := insert fp (processed_files h),
       last_processed := (last_processed h)(fp \<mapsto> t)\<rparr>"


section \<open>WatchFolderProcessor: configuration, state and enqueue\<close>

record config =
  output_folder :: string
  max_workers :: int
  sample_rate :: int
  default_preset :: string
  remove_artifacts :: bool
  auto_delete_original :: bool
  backup_original :: bool
  backup_folder :: string
  max_queue_size :: int
  log_file :: string

text \<open>The \<^verbatim>\<open>default_config\<close> of \<^verbatim>\<open>_load_config\<close>, restricted to the keys the model reads.\<close>

definition default_config :: config where
  "default_config =
     \<lparr>output_folder = ''processed'', max_workers = 2, sample_rate = 44100,
      default_preset = ''spotify_ready'', remove_artifacts = True,
      auto_delete_original = False, backup_original = True, backup_folder = ''backups'',
      max_queue_size = 100, log_file = ''suno_watchdog.log''\<rparr>"

text \<open>The \<^verbatim>\<open>stats\<close> dictionary; its keys carry the prefix \<open>stat_\<close>.\<close>

record stats =
  stat_processed_files :: int
  stat_failed_files :: int
  stat_total_processing_time :: real
  stat_start_time :: "string option"
  stat_last_activity :: "string option"

text \<open>
  The processor: \<open>pqueue\<close> is \<^verbatim>\<open>self.queue\<close>, \<open>handlers\<close> the dictionary from watch
  folder to handler in insertion order.
\<close>

record processor =
  config :: config
  pqueue :: processing_queue
  handlers :: "(string \<times> handler) list"
  stats :: stats
  running :: bool

text \<open>\<^verbatim>\<open>WatchFolderProcessor.__init__\<close> for a loaded configuration.\<close>

definition initial_stats :: stats where
  "initial_stats =
     \<lparr>stat_processed_files = 0, stat_failed_files = 0, stat_total_processing_time = 0,
      stat_start_time = None, stat_last_activity = None\<rparr>"

definition new_processor :: "config \<Rightarrow> processor" where
  "new_processor cfg =
     \<lparr>config = cfg, pqueue = new_queue, handlers = [], stats = initial_stats,
      running = False\<rparr>"

text \<open>
  \<^verbatim>\<open>add_watch_folder\<close>, as far as the processor's own state goes:
  \<^verbatim>\<open>self.handlers[str(folder)] = handler\<close> with a fresh handler.
\<close>

definition add_watch_folder :: "string \<Rightarrow> processor \<Rightarrow> processor" where
  "add_watch_folder folder P =
     P\<lparr>handlers :=
         (if folder \<in> fst ` set (handlers P)
          then map (\<lambda>(k, h). if k = folder then (k, new_handler) else (k, h)) (handlers P)
          else handlers P @ [(folder, new_handler)])\<rparr>"

text \<open>
  \<^verbatim>\<open>WatchFolderProcessor.enqueue_file\<close>; \<open>now\<close> is \<^verbatim>\<open>datetime.now().isoformat()\<close>.
  The result is the returned flag and the processor afterwards.
\<close>

definition enqueue_file :: "processor \<Rightarrow> string \<Rightarrow> string \<Rightarrow> string \<Rightarrow> bool \<times> processor" where
  "enqueue_file P now fp prio =
     (let priority_value = priority_value prio
      in if size_q (pqueue P) \<ge> max_queue_size (config P) then (False, P)
         else (True,
               P\<lparr>pqueue :=
                   enqueue \<lparr>file_path = fp, priority = prio, enqueued_time = now,
                            status = ''queued''\<rparr> priority_value (pqueue P)\<rparr>))"

text \<open>\<^verbatim>\<open>WatchFolderHandler.on_created\<close> of handler \<open>h\<close>, acting on its processor.\<close>

definition on_created :: "world \<Rightarrow> handler \<Rightarrow> event \<Rightarrow> processor \<Rightarrow> processor" where
  "on_created w h ev P =
     (if is_directory ev then P
      else let fp = src_path ev
           in if should_process w h fp then snd (enqueue_file P (now_iso w) fp ''high'')
              else P)"

text \<open>\<^verbatim>\<open>WatchFolderHandler.on_modified\<close>\<close>

definition on_modified :: "world \<Rightarrow> handler \<Rightarrow> event \<Rightarrow> processor \<Rightarrow> processor" where
  "on_modified w h ev P =
     (if is_directory ev then P
      else let fp = src_path ev
           in if should_process w h fp
              then let last_time = (case last_processed h fp of None \<Rightarrow> 0 | Some t \<Rightarrow> t)
                   in if time_now w - last_time > 60
                      then snd (enqueue_file P (now_iso w) fp ''medium'')
                      else P
              else P)"


section \<open>Statements that may return or raise\<close>

text \<open>
  The body of \<^verbatim>\<open>process_file\<close> mutates the result dictionary step by step, and what has
  been written stays when a later step raises. A statement therefore maps a state to the
  way it ends and the state it leaves.
\<close>

datatype flow = Normal | Return | Raise string

type_synonym 's stmt = "'s \<Rightarrow> flow \<times> 's"

fun block :: "'s stmt list \<Rightarrow> 's stmt" where
  "block [] s = (Normal, s)"
| "block (c # cs) s =
     (let (fl, s') = c s in if fl = Normal then block cs s' else (fl, s'))"

definition call :: "string option \<Rightarrow> 's stmt" where
  "call r s = (case r of None \<Rightarrow> (Normal, s) | Some e \<Rightarrow> (Raise e, s))"

definition assign :: "('s \<Rightarrow> 's) \<Rightarrow> 's stmt" where
  "assign f s = (Normal, f s)"

definition if_then :: "bool \<Rightarrow> 's stmt \<Rightarrow> 's stmt" where
  "if_then b c s = (if b then c s else (Normal, s))"

text \<open>\<^verbatim>\<open>try: body  except Exception as e: handler(e)\<close>\<close>

definition try_except :: "'s stmt \<Rightarrow> (string \<Rightarrow> 's stmt) \<Rightarrow> 's stmt" where
  "try_except body handler s =
     (let (fl, s') = body s
      in case fl of Raise e \<Rightarrow> handler e s' | _ \<Rightarrow> (fl, s'))"

text \<open>\<^verbatim>\<open>try: body  finally: fin\<close>: \<open>fin\<close> runs however \<open>body\<close> ends.\<close>

definition try_finally :: "'s stmt \<Rightarrow> 's stmt \<Rightarrow> 's stmt" where
  "try_finally body fin s =
     (let (fl, s') = body s; (fl', s'') = fin s'
      in if fl' = Normal then (fl, s'') else (fl', s''))"


section \<open>WatchFolderProcessor: processing one file\<close>

text \<open>
  The result dictionary. Keys that the code adds on the way (\<^verbatim>\<open>metadata\<close>,
  \<^verbatim>\<open>backup_path\<close>, \<^verbatim>\<open>artifacts_removed\<close>, \<^verbatim>\<open>mastering_preset\<close>,
  \<^verbatim>\<open>original_deleted\<close>, \<^verbatim>\<open>end_time\<close>) are absent as \<open>None\<close> or \<open>False\<close>.
\<close>

record result =
  res_task :: task
  res_file_path :: string
  res_start_time :: real
  success :: bool
  errors :: "string list"
  processing_time :: real
  output_path :: "string option"
  res_metadata :: "metadata option"
  backup_path :: "string option"
  artifacts_removed :: bool
  mastering_preset :: "string option"
  original_deleted :: bool
  res_end_time :: "real option"

type_synonym pf_state = "result \<times> (string \<times> handler) list"

definition on_result :: "(result \<Rightarrow> result) \<Rightarrow> pf_state \<Rightarrow> pf_state" where
  "on_result f s = (f (fst s), snd s)"

text \<open>
  The body of the \<^verbatim>\<open>try\<close> of \<^verbatim>\<open>process_file\<close>, statement by statement. The audio
  array handed from one library call to the next is not part of the result and is left
  out; both branches on \<^verbatim>\<open>audio.ndim\<close> write the same output file. The call of
  \<^verbatim>\<open>_get_processing_settings\<close> only reads the configuration and its value is not used.
\<close>

definition process_file_try :: "config \<Rightarrow> world \<Rightarrow> string \<Rightarrow> pf_state stmt" where
  "process_file_try cfg w fp =
     (let output_dir = path_join (path_parent fp) (output_folder cfg);
          output_file = path_join output_dir
             (''processed_'' @ path_stem fp @ ''_'' @ stamp w @ path_suffix fp);
          backup_dir = path_join (path_parent fp) (backup_folder cfg);
          backup_file = path_join backup_dir (''original_'' @ path_name fp);
          preset = default_preset cfg
      in block
        [(\<lambda>s. let (is_valid, error) = validate_audio_file w fp
               in if \<not> is_valid
                  then (Return,
                        on_result (\<lambda>r. r\<lparr>errors := errors r @ [''Validation failed: '' @ error]\<rparr>) s)
                  else (Normal, s)),
         (\<lambda>s. case analyze_audio_metadata w fp of
                 Inl e \<Rightarrow> (Raise e, s)
               | Inr md \<Rightarrow> (Normal, on_result (\<lambda>r. r\<lparr>res_metadata := Some md\<rparr>) s)),
         call (mkdir w output_dir),
         if_then (backup_original cfg)
           (block [call (mkdir w backup_dir),
                   call (copy2 w fp backup_file),
                   assign (on_result (\<lambda>r. r\<lparr>backup_path := Some backup_file\<rparr>))]),
         call (import_audio_libs w),
         call (librosa_load w fp),
         if_then (remove_artifacts cfg)
           (block [call (process_full w),
                   assign (on_result (\<lambda>r. r\<lparr>artifacts_removed := True\<rparr>))]),
         call (master_track w preset),
         assign (on_result (\<lambda>r. r\<lparr>mastering_preset := Some preset\<rparr>)),
         call (sf_write w output_file),
         assign (on_result (\<lambda>r. r\<lparr>success := True, output_path := Some output_file\<rparr>)),
         assign (\<lambda>s. (fst s, map (\<lambda>(k, h). (k, mark_processed (mark_time w k) fp h)) (snd s))),
         if_then (auto_delete_original cfg)
           (block [call (unlink w fp),
                   assign (on_result (\<lambda>r. r\<lparr>original_deleted := True\<rparr>))])])"

text \<open>The \<^verbatim>\<open>except Exception as e\<close> clause: \<^verbatim>\<open>result['errors'].append(str(e))\<close>.\<close>

definition process_file_except :: "string \<Rightarrow> pf_state stmt" where
  "process_file_except e = assign (on_result (\<lambda>r. r\<lparr>errors := errors r @ [e]\<rparr>))"

text \<open>The \<^verbatim>\<open>finally\<close> clause.\<close>

definition process_file_finally :: "world \<Rightarrow> pf_state stmt" where
  "process_file_finally w =
     assign (on_result (\<lambda>r. r\<lparr>processing_time := time_end w - res_start_time r,
                                res_end_time := Some (time_end w)\<rparr>))"

definition initial_result :: "world \<Rightarrow> task \<Rightarrow> result" where
  "initial_result w t =
     \<lparr>res_task = t, res_file_path = file_path t, res_start_time = time_start w,
      success = False, errors = [], processing_time = 0, output_path = None,
      res_metadata = None, backup_path = None, artifacts_removed = False,
      mastering_preset = None, original_deleted = False, res_end_time = None\<rparr>"

text \<open>
  \<^verbatim>\<open>WatchFolderProcessor.process_file\<close>: \<open>Inl e\<close> is an exception leaving the method,
  \<open>Inr\<close> the returned result with the processor afterwards (its handlers may have been
  marked).
\<close>

definition process_file :: "processor \<Rightarrow> world \<Rightarrow> task \<Rightarrow> string + result \<times> processor" where
  "process_file P w t =
     (let fp = file_path t;
          (fl, s) = try_finally
                      (try_except (process_file_try (config P) w fp) process_file_except)
                      (process_file_finally w)
                      (initial_result w t, handlers P)
      in case fl of
           Raise e \<Rightarrow> Inl e
         | _ \<Rightarrow> Inr (fst s, P\<lparr>handlers := snd s\<rparr>))"


section \<open>WatchFolderProcessor: the worker loop and the statistics\<close>

text \<open>
  \<^verbatim>\<open>_log_result\<close>: \<^verbatim>\<open>ensure_directory(log_file.parent)\<close> stands outside the
  \<^verbatim>\<open>try\<close>, the write inside. \<open>Inl e\<close> is an exception leaving the method, \<open>Inr b\<close> tells
  whether the line was written.
\<close>

definition log_result :: "world \<Rightarrow> config \<Rightarrow> result \<Rightarrow> nat \<Rightarrow> string + bool" where
  "log_result w cfg res worker_id =
     (case mkdir w (path_parent (log_file cfg)) of
        Some e \<Rightarrow> Inl e
      | None \<Rightarrow> Inr (log_append w (log_file cfg) = None))"

text \<open>What one iteration of the worker loop did.\<close>

datatype worker_event =
    Slept (slept_for: real)
  | Completed (completed_result: result) (log_written: bool)

text \<open>
  One iteration of the \<^verbatim>\<open>while self.running\<close> loop of \<^verbatim>\<open>_worker_loop\<close>, in the world
  \<open>w\<close> it meets. \<open>Inl e\<close>: the exception \<open>e\<close> leaves the loop and ends the worker.
\<close>

definition worker_iteration ::
    "nat \<Rightarrow> world \<Rightarrow> processor \<Rightarrow> string + worker_event \<times> processor" where
  "worker_iteration worker_id w P =
     (case dequeue (pqueue P) of
        (None, q) \<Rightarrow> Inr (Slept (1 / 2), P)
      | (Some t, q) \<Rightarrow>
          (case process_file (P\<lparr>pqueue := q\<rparr>) w t of
             Inl e \<Rightarrow> Inl e
           | Inr (res, P1) \<Rightarrow>
               (let st = stats P1;
                    st1 = st\<lparr>stat_processed_files := stat_processed_files st + 1,
                             stat_total_processing_time :=
                               stat_total_processing_time st + processing_time res,
                             stat_last_activity := Some (now_iso w)\<rparr>;
                    st2 = (if \<not> success res
                           then st1\<lparr>stat_failed_files := stat_failed_files st1 + 1\<rparr>
                           else st1);
                    P2 = P1\<lparr>stats := st2\<rparr>
                in case log_result w (config P2) res worker_id of
                     Inl e \<Rightarrow> Inl e
                   | Inr written \<Rightarrow> Inr (Completed res written, P2))))"

text \<open>
  The loop itself, run for as many iterations as there are worlds in the list; it ends
  early when \<^verbatim>\<open>self.running\<close> is false or an exception leaves an iteration.
\<close>

fun worker_loop ::
    "nat \<Rightarrow> world list \<Rightarrow> processor \<Rightarrow> string + worker_event list \<times> processor" where
  "worker_loop worker_id [] P = Inr ([], P)"
| "worker_loop worker_id (w # ws) P =
     (if \<not> running P then Inr ([], P)
      else (case worker_iteration worker_id w P of
              Inl e \<Rightarrow> Inl e
            | Inr (ev, P') \<Rightarrow>
                (case worker_loop worker_id ws P' of
                   Inl e \<Rightarrow> Inl e
                 | Inr (evs, P'') \<Rightarrow> Inr (ev # evs, P''))))"

text \<open>
  \<^verbatim>\<open>get_stats\<close>: the copy of the statistics with the derived keys (the two thread counts
  are left out).
\<close>

record stats_report =
  report_stats :: stats
  queue_size :: int
  watch_folders :: "string list"
  avg_processing_time :: real

definition get_stats :: "processor \<Rightarrow> stats_report" where
  "get_stats P =
     \<lparr>report_stats = stats P,
      queue_size = size_q (pqueue P),
      watch_folders = map fst (handlers P),
      avg_processing_time =
        (if stat_processed_files (stats P) > 0
         then stat_total_processing_time (stats P) / real_of_int (stat_processed_files (stats P))
         else 0)\<rparr>"


section \<open>Sequences of calls\<close>

text \<open>
  A request is the triple of clock reading, path and priority string of one call of
  \<^verbatim>\<open>enqueue_file\<close>; \<open>enqueue_files\<close> makes the calls in order and collects the flags.
\<close>

type_synonym request = "string \<times> string \<times> string"

fun enqueue_files :: "request list \<Rightarrow> processor \<Rightarrow> bool list \<times> processor" where
  "enqueue_files [] P = ([], P)"
| "enqueue_files ((now, fp, prio) # rs) P =
     (let (ok, P') = enqueue_file P now fp prio;
          (oks, P'') = enqueue_files rs P'
      in (ok # oks, P''))"

text \<open>The task that an accepted request puts into the queue.\<close>

definition task_of :: "request \<Rightarrow> task" where
  "task_of r =
     \<lparr>file_path = fst (snd r), priority = snd (snd r), enqueued_time = fst r,
      status = ''queued''\<rparr>"

definition accepted :: "bool list \<Rightarrow> request list \<Rightarrow> request list" where
  "accepted oks rs = map snd (filter fst (zip oks rs))"

text \<open>Calling \<^verbatim>\<open>dequeue\<close> until it returns \<^verbatim>\<open>None\<close>; the tasks in the order returned.\<close>

function dequeue_all :: "processing_queue \<Rightarrow> task list" where
  "dequeue_all q =
     (let (t, q') = dequeue q
      in case t of None \<Rightarrow> [] | Some item \<Rightarrow> item # dequeue_all q')"
  by pat_completeness auto
termination
proof (relation "measure (\<lambda>q. length (queue q))")
  show "wf (measure (\<lambda>q. length (queue q)))" by simp
next
  fix q :: processing_queue and x t q' item
  assume a: "x = dequeue q" "(t, q') = x" "t = Some item"
  have mem: "pq_min m es \<in> set (m # es)" for m es
    by (induction es arbitrary: m) auto
  from a obtain e es where q: "queue q = e # es"
    and q': "queue q' = remove1 (pq_min e es) (e # es)"
    by (auto simp: dequeue_def pq_get_nowait_def Let_def split: list.splits)
  have "length (remove1 (pq_min e es) (e # es)) < length (e # es)"
    using mem [of e es] by (simp add: length_remove1 del: remove1.simps)
  with q q' show "(q', q) \<in> measure (\<lambda>q. length (queue q))" by simp
qed


text \<open>
  The queue entry of the \<open>n\<close>-th accepted request, and the results among the events of a
  worker.
\<close>

definition entry_of :: "nat \<times> request \<Rightarrow> entry" where
  "entry_of nr = (priority_value (snd (snd (snd nr))), fst nr, task_of (snd nr))"

fun completed_results :: "worker_event list \<Rightarrow> result list" where
  "completed_results [] = []"
| "completed_results (Slept d # evs) = completed_results evs"
| "completed_results (Completed res written # evs) = res # completed_results evs"

text \<open>The exception, if any, with which the body of the \<^verbatim>\<open>try\<close> ends for a task.\<close>

definition raised_in_try :: "processor \<Rightarrow> world \<Rightarrow> task \<Rightarrow> string option" where
  "raised_in_try P w t =
     (case fst (process_file_try (config P) w (file_path t) (initial_result w t, handlers P)) of
        Raise e \<Rightarrow> Some e
      | _ \<Rightarrow> None)"


section \<open>Concrete inputs\<close>

text \<open>
  A world in which every call succeeds and every path is a one-second stereo file of a
  megabyte; the variations make one call fail or move the clock.
\<close>

definition quiet_world :: world where
  "quiet_world =
     \<lparr>path_exists = (\<lambda>_. True), st_size = (\<lambda>_. Inr 1000000),
      sf_info = (\<lambda>_. Inr \<lparr>samplerate = 44100, frames = 44100, channels = 2\<rparr>),
      load_probe = (\<lambda>_. Inr 88200), analyze_audio_metadata = (\<lambda>_. Inr []),
      mkdir = (\<lambda>_. None), copy2 = (\<lambda>_ _. None), import_audio_libs = None,
      librosa_load = (\<lambda>_. None), process_full = None, master_track = (\<lambda>_. None),
      sf_write = (\<lambda>_. None), unlink = (\<lambda>_. None), log_append = (\<lambda>_. None),
      time_now = 1000, time_start = 1000, time_end = 1001, mark_time = (\<lambda>_. 1001),
      now_iso = ''2024-01-01T00:16:40'', stamp = ''20240101_001640''\<rparr>"

definition disk_full_world :: world where
  "disk_full_world =
     quiet_world\<lparr>sf_write := (\<lambda>_. Some ''[Errno 28] No space left on device'')\<rparr>"

definition delete_fail_world :: world where
  "delete_fail_world =
     quiet_world\<lparr>unlink := (\<lambda>_. Some ''[Errno 13] Permission denied'')\<rparr>"

definition track_event :: event where
  "track_event = \<lparr>is_directory = False, src_path = ''/w/a.wav''\<rparr>"

definition track_task :: task where
  "track_task = task_of (''2024-01-01T00:16:40'', ''/w/a.wav'', ''high'')"

text \<open>A running processor watching \<^verbatim>\<open>/w\<close>, without and with one queued task.\<close>

definition idle_processor :: processor where
  "idle_processor = (add_watch_folder ''/w'' (new_processor default_config))\<lparr>running := True\<rparr>"

definition busy_processor :: processor where
  "busy_processor = snd (enqueue_file idle_processor ''2024-01-01T00:16:40'' ''/w/a.wav'' ''high'')"

text \<open>A handler after \<^verbatim>\<open>mark_processed\<close> of the track at time 0.\<close>

definition marked_handler :: handler where
  "marked_handler = mark_processed 0 ''/w/a.wav'' new_handler"

text \<open>A processor with room for two tasks, after two accepted requests.\<close>

definition small_processor :: processor where
  "small_processor = new_processor (default_config\<lparr>max_queue_size := 2\<rparr>)"

text \<open>The processor with the queued task, configured to delete originals.\<close>

definition deleting_processor :: processor where
  "deleting_processor =
     busy_processor\<lparr>config := default_config\<lparr>auto_delete_original := True\<rparr>\<rparr>"

text \<open>
  What the worker makes of the queued task when the disk is full: the result, and the
  processor afterwards.
\<close>

definition failed_result :: result where
  "failed_result =
     (initial_result disk_full_world track_task)
       \<lparr>res_metadata := Some [], backup_path := Some ''/w/backups/original_a.wav'',
        artifacts_removed := True, mastering_preset := Some ''spotify_ready'',
        errors := [''[Errno 28] No space left on device''],
        processing_time := 1, res_end_time := Some 1001\<rparr>"

definition after_failure :: processor where
  "after_failure =
     busy_processor
       \<lparr>pqueue := \<lparr>queue = [], task_id = 1\<rparr>,
        stats := initial_stats
          \<lparr>stat_processed_files := 1, stat_total_processing_time := 1,
           stat_last_activity := Some ''2024-01-01T00:16:40'',
           stat_failed_files := 1\<rparr>\<rparr>"

definition missing_world :: world where
  "missing_world = quiet_world\<lparr>path_exists := (\<lambda>_. False)\<rparr>"

definition full_processor :: processor where
  "full_processor =
     snd (enqueue_files [(''t1'', ''A'', ''medium''), (''t2'', ''B'', ''medium'')] small_processor)"


section \<open>The queue: order of service, capacity, priority strings\<close>

lemma pq_min_mem: "pq_min m es \<in> set (m # es)"
  by (induction es arbitrary: m) auto

lemma pq_min_le_start: "entry_key (pq_min m es) \<le> entry_key m"
proof (induction es arbitrary: m)
  case Nil
  show ?case by simp
next
  case (Cons e es)
  have "entry_key (pq_min (if entry_key e < entry_key m then e else m) es)
          \<le> entry_key (if entry_key e < entry_key m then e else m)"
    by (rule Cons.IH)
  also have "\<dots> \<le> entry_key m" by (simp add: less_imp_le)
  finally show ?case by simp
qed

lemma pq_min_least: "x \<in> set (m # es) \<Longrightarrow> entry_key (pq_min m es) \<le> entry_key x"
proof (induction es arbitrary: m)
  case Nil
  then show ?case by simp
next
  case (Cons e es)
  let ?m' = "if entry_key e < entry_key m then e else m"
  have start: "entry_key (pq_min ?m' es) \<le> entry_key ?m'" by (rule pq_min_le_start)
  from Cons.prems consider "x = m" | "x = e" | "x \<in> set es" by auto
  then show ?case
  proof cases
    case 1
    with start show ?thesis by (auto split: if_splits)
  next
    case 2
    with start show ?thesis by (auto split: if_splits)
  next
    case 3
    then have "entry_key (pq_min ?m' es) \<le> entry_key x" by (intro Cons.IH) simp
    then show ?thesis by simp
  qed
qed

lemma insort_key_map_comm:
  "insort_key g (f x) (map f ys) = map f (insort_key (\<lambda>y. g (f y)) x ys)"
  by (induction ys) auto

lemma sort_key_map_comm: "sort_key g (map f xs) = map f (sort_key (\<lambda>y. g (f y)) xs)"
  by (induction xs) (simp_all add: insort_key_map_comm)

lemma sort_key_pq_min:
  assumes "inj_on entry_key (set (e # es))"
  shows "sort_key entry_key (e # es)
           = pq_min e es # sort_key entry_key (remove1 (pq_min e es) (e # es))"
proof (rule sort_key_inj_key_eq)
  let ?m = "pq_min e es"
  have mem: "?m \<in> set (e # es)" by (rule pq_min_mem)
  show "mset (e # es) = mset (?m # sort_key entry_key (remove1 ?m (e # es)))"
    using mem by (simp del: remove1.simps)
  show "inj_on entry_key (set (e # es))" by (rule assms)
  have "\<forall>x \<in> set (remove1 ?m (e # es)). entry_key ?m \<le> entry_key x"
    using pq_min_least [of _ e es] by (metis notin_set_remove1)
  then show "sorted (map entry_key (?m # sort_key entry_key (remove1 ?m (e # es))))"
    by (simp del: remove1.simps)
qed

lemma dequeue_all_sort:
  "inj_on entry_key (set (queue q)) \<Longrightarrow>
     dequeue_all q = map entry_item (sort_key entry_key (queue q))"
proof (induction "length (queue q)" arbitrary: q)
  case 0
  then have "queue q = []" by simp
  then show ?case
    by (subst dequeue_all.simps) (simp add: dequeue_def pq_get_nowait_def)
next
  case (Suc n)
  then obtain e es where q: "queue q = e # es" by (cases "queue q") auto
  let ?m = "pq_min e es"
  let ?q' = "q\<lparr>queue := remove1 ?m (e # es)\<rparr>"
  have mem: "?m \<in> set (e # es)" by (rule pq_min_mem)
  have deq: "dequeue q = (Some (entry_item ?m), ?q')"
    by (simp add: dequeue_def pq_get_nowait_def q Let_def)
  have len: "n = length (queue ?q')"
    using Suc.hyps(2) mem by (simp add: q length_remove1 del: remove1.simps)
  have inj: "inj_on entry_key (set (queue ?q'))"
    using Suc.prems q set_remove1_subset [of ?m "e # es"]
    by (auto intro: inj_on_subset simp del: remove1.simps)
  have IH: "dequeue_all ?q' = map entry_item (sort_key entry_key (queue ?q'))"
    using Suc.hyps(1) [OF len inj] .
  have "dequeue_all q = entry_item ?m # dequeue_all ?q'"
    by (subst dequeue_all.simps) (simp add: deq)
  also have "\<dots> = map entry_item (?m # sort_key entry_key (remove1 ?m (e # es)))"
    using IH by (simp del: remove1.simps)
  also have "\<dots> = map entry_item (sort_key entry_key (e # es))"
    using sort_key_pq_min [of e es] Suc.prems q by (simp del: remove1.simps)
  finally show ?case by (simp add: q)
qed


lemma enqueue_file_cases:
  "enqueue_file P now fp prio =
     (if size_q (pqueue P) \<ge> max_queue_size (config P) then (False, P)
      else (True, P\<lparr>pqueue := \<lparr>queue = queue (pqueue P) @
                 [(priority_value prio, Suc (task_id (pqueue P)), task_of (now, fp, prio))],
               task_id = Suc (task_id (pqueue P))\<rparr>\<rparr>))"
  by (simp add: enqueue_file_def enqueue_def pq_put_def task_of_def Let_def)

lemma enqueue_files_queue:
  "queue (pqueue (snd (enqueue_files rs P)))
     = queue (pqueue P)
       @ map entry_of (enumerate (Suc (task_id (pqueue P))) (accepted (fst (enqueue_files rs P)) rs))"
proof (induction rs arbitrary: P)
  case Nil
  show ?case by (simp add: accepted_def)
next
  case (Cons r rs)
  obtain now fp prio where r: "r = (now, fp, prio)" by (cases r) auto
  show ?case
  proof (cases "size_q (pqueue P) \<ge> max_queue_size (config P)")
    case True
    then have ef: "enqueue_file P now fp prio = (False, P)" by (simp add: enqueue_file_cases)
    show ?thesis using Cons.IH [of P]
      by (simp add: r ef accepted_def case_prod_unfold Let_def)
  next
    case False
    let ?P' = "P\<lparr>pqueue := \<lparr>queue = queue (pqueue P) @
                 [(priority_value prio, Suc (task_id (pqueue P)), task_of (now, fp, prio))],
               task_id = Suc (task_id (pqueue P))\<rparr>\<rparr>"
    from False have ef: "enqueue_file P now fp prio = (True, ?P')"
      by (simp add: enqueue_file_cases)
    show ?thesis using Cons.IH [of ?P']
      by (simp add: r ef accepted_def entry_of_def case_prod_unfold Let_def)
  qed
qed

lemma sorted_insort_key_lex:
  "sorted (map (\<lambda>y. (g y, h y)) ys) \<Longrightarrow> \<forall>y \<in> set ys. h x \<le> h y \<Longrightarrow>
     sorted (map (\<lambda>y. (g y, h y)) (insort_key g x ys))"
  by (induction ys) (auto simp: less_eq_prod_def set_insort_key not_le)

lemma sorted_sort_key_lex:
  "sorted (map h xs) \<Longrightarrow> sorted (map (\<lambda>y. (g y, h y)) (sort_key g xs))"
proof (induction xs)
  case Nil
  show ?case by simp
next
  case (Cons x xs)
  then have "sorted (map (\<lambda>y. (g y, h y)) (sort_key g xs))" by simp
  moreover from Cons.prems have "\<forall>y \<in> set (sort_key g xs). h x \<le> h y" by simp
  ultimately show ?case by (simp add: sorted_insort_key_lex)
qed

lemma sort_key_lex_stable:
  assumes "sorted (map h xs)" "distinct (map h xs)"
  shows "sort_key (\<lambda>y. (g y, h y)) xs = sort_key g xs"
proof (rule sort_key_inj_key_eq)
  show "mset xs = mset (sort_key g xs)" by simp
  show "inj_on (\<lambda>y. (g y, h y)) (set xs)"
    using assms(2) by (auto simp: inj_on_def distinct_map)
  show "sorted (map (\<lambda>y. (g y, h y)) (sort_key g xs))"
    using assms(1) by (rule sorted_sort_key_lex)
qed


lemma entry_key_entry_of: "entry_key (entry_of nr) = (priority_value (snd (snd (snd nr))), fst nr)"
  by (simp add: entry_key_def entry_of_def)

lemma entry_item_entry_of: "entry_item (entry_of nr) = task_of (snd nr)"
  by (simp add: entry_item_def entry_of_def)

lemma dequeue_all_enumerate:
  "dequeue_all \<lparr>queue = map entry_of (enumerate k acc), task_id = c\<rparr>
     = map (\<lambda>nr. task_of (snd nr))
         (sort_key (\<lambda>nr. (priority_value (snd (snd (snd nr))), fst nr)) (enumerate k acc))"
proof -
  let ?xs = "enumerate k acc"
  have d: "distinct (map fst ?xs)" by simp
  have "inj_on fst (set ?xs)" using d distinct_map [of fst ?xs] by blast
  then have "inj_on (entry_key \<circ> entry_of) (set ?xs)"
    unfolding inj_on_def comp_def entry_key_entry_of by blast
  then have "inj_on entry_key (set (map entry_of ?xs))"
    by (simp add: inj_on_imageI)
  then have "dequeue_all \<lparr>queue = map entry_of ?xs, task_id = c\<rparr>
      = map entry_item (sort_key entry_key (map entry_of ?xs))"
    using dequeue_all_sort [of "\<lparr>queue = map entry_of ?xs, task_id = c\<rparr>"] by simp
  also have "\<dots> = map entry_item (map entry_of (sort_key (\<lambda>nr. entry_key (entry_of nr)) ?xs))"
    by (simp only: sort_key_map_comm)
  finally show ?thesis
    by (simp add: entry_key_entry_of entry_item_entry_of comp_def)
qed

lemma sort_enumerate_stable:
  "map snd (sort_key (\<lambda>nr. (g (snd nr), fst nr)) (enumerate k acc)) = sort_key g acc"
proof -
  let ?xs = "enumerate k acc"
  have "sorted (map fst ?xs)" "distinct (map fst ?xs)" by simp_all
  then have "sort_key (\<lambda>nr. (g (snd nr), fst nr)) ?xs = sort_key (\<lambda>nr. g (snd nr)) ?xs"
    by (rule sort_key_lex_stable)
  then have "map snd (sort_key (\<lambda>nr. (g (snd nr), fst nr)) ?xs)
               = map snd (sort_key (\<lambda>nr. g (snd nr)) ?xs)" by simp
  also have "\<dots> = sort_key g (map snd ?xs)" by (simp only: sort_key_map_comm)
  finally show ?thesis by simp
qed

text \<open>
  Claim C1. The priority strings \<^verbatim>\<open>high\<close>, \<^verbatim>\<open>medium\<close> and \<^verbatim>\<open>low\<close> map to 0, 1 and 2.
  After any sequence of \<^verbatim>\<open>enqueue_file\<close> calls on a fresh processor, the accepted
  requests carry the sequence numbers 1, 2, 3, ... in the order of the calls, and calling
  \<^verbatim>\<open>dequeue\<close> until the queue is empty returns their tasks sorted by the pair
  (numeric priority, sequence number), which is the stable sort of the accepted requests
  by numeric priority: within a priority level the smaller sequence number comes first.
\<close>

theorem priority_ordering:
  "priority_value ''high'' = 0 \<and> priority_value ''medium'' = 1 \<and> priority_value ''low'' = 2 \<and>
   (let (oks, P) = enqueue_files rs (new_processor cfg);
        acc = accepted oks rs;
        key = (\<lambda>nr. (priority_value (snd (snd (snd nr))), fst nr))
    in map entry_key (queue (pqueue P)) = map key (enumerate 1 acc) \<and>
       dequeue_all (pqueue P) = map (\<lambda>nr. task_of (snd nr)) (sort_key key (enumerate 1 acc)) \<and>
       dequeue_all (pqueue P)
         = map task_of (sort_key (\<lambda>r. priority_value (snd (snd r))) acc))"
proof -
  obtain oks P where ef: "enqueue_files rs (new_processor cfg) = (oks, P)"
    by (cases "enqueue_files rs (new_processor cfg)") auto
  let ?acc = "accepted oks rs"
  let ?key = "\<lambda>nr :: nat \<times> request. (priority_value (snd (snd (snd nr))), fst nr)"
  have q: "queue (pqueue P) = map entry_of (enumerate 1 ?acc)"
    using enqueue_files_queue [of rs "new_processor cfg", unfolded ef]
    by (simp add: new_processor_def new_queue_def)
  have pq: "pqueue P = \<lparr>queue = map entry_of (enumerate 1 ?acc), task_id = task_id (pqueue P)\<rparr>"
    using q by (cases "pqueue P") simp
  have a: "map entry_key (queue (pqueue P)) = map ?key (enumerate 1 ?acc)"
    by (simp add: q entry_key_entry_of)
  have b: "dequeue_all (pqueue P)
             = map (\<lambda>nr. task_of (snd nr)) (sort_key ?key (enumerate 1 ?acc))"
    by (subst pq) (rule dequeue_all_enumerate)
  have "map (\<lambda>nr. task_of (snd nr)) (sort_key ?key (enumerate 1 ?acc))
          = map task_of (map snd (sort_key ?key (enumerate 1 ?acc)))" by simp
  also have "\<dots> = map task_of (sort_key (\<lambda>r. priority_value (snd (snd r))) ?acc)"
    by (simp only: sort_enumerate_stable [of "\<lambda>r. priority_value (snd (snd r))"])
  finally have c: "dequeue_all (pqueue P)
      = map task_of (sort_key (\<lambda>r. priority_value (snd (snd r))) ?acc)"
    using b by simp
  have pv: "priority_value ''high'' = 0 \<and> priority_value ''medium'' = 1
              \<and> priority_value ''low'' = 2"
    by (simp add: priority_value_def priority_map_def lower_def lower_char_def)
  from a b c pv show ?thesis by (simp add: ef)
qed


lemma priority_value_simps:
  "priority_value ''high'' = 0" "priority_value ''medium'' = 1" "priority_value ''low'' = 2"
  by (simp_all add: priority_value_def priority_map_def lower_def lower_char_def)

text \<open>
  Claim C3. When the size of the queue equals \<^verbatim>\<open>max_queue_size\<close>, \<^verbatim>\<open>enqueue_file\<close>
  returns \<^verbatim>\<open>False\<close> and leaves the processor, hence the queue and its size, as it was.
  With \<^verbatim>\<open>max_queue_size\<close> 2, the requests (A, medium), (B, medium), (C, high) are
  answered \<^verbatim>\<open>True\<close>, \<^verbatim>\<open>True\<close>, \<^verbatim>\<open>False\<close> and the queue holds A and B.
\<close>

theorem capacity_invariant:
  "(size_q (pqueue P) = max_queue_size (config P) \<longrightarrow>
      enqueue_file P now fp prio = (False, P)) \<and>
   fst (enqueue_files [(t1, ''A'', ''medium''), (t2, ''B'', ''medium''), (t3, ''C'', ''high'')]
          small_processor) = [True, True, False] \<and>
   map (\<lambda>e. (fst e, file_path (entry_item e)))
     (queue (pqueue (snd (enqueue_files
        [(t1, ''A'', ''medium''), (t2, ''B'', ''medium''), (t3, ''C'', ''high'')]
        small_processor)))) = [(1, ''A''), (1, ''B'')]"
proof -
  have general: "size_q (pqueue P) = max_queue_size (config P) \<longrightarrow>
      enqueue_file P now fp prio = (False, P)"
    by (simp add: enqueue_file_cases)
  have scenario: "enqueue_files [(t1, ''A'', ''medium''), (t2, ''B'', ''medium''), (t3, ''C'', ''high'')]
      small_processor
    = ([True, True, False],
       small_processor\<lparr>pqueue := \<lparr>queue = [(1, 1, task_of (t1, ''A'', ''medium'')),
                                             (1, 2, task_of (t2, ''B'', ''medium''))],
                                    task_id = 2\<rparr>\<rparr>)"
    by (simp add: enqueue_file_cases small_processor_def new_processor_def new_queue_def
        default_config_def size_q_def priority_value_simps)
  show ?thesis
    using general unfolding scenario by (simp add: entry_item_def task_of_def)
qed

text \<open>The capacity theorem at the processor that already holds A and B.\<close>

theorem capacity_invariant_witness:
  "size_q (pqueue full_processor) = max_queue_size (config full_processor) \<and>
   enqueue_file full_processor ''t3'' ''C'' ''high'' = (False, full_processor)"
proof -
  have h: "size_q (pqueue full_processor) = max_queue_size (config full_processor)"
    by (simp add: full_processor_def enqueue_file_cases small_processor_def new_processor_def
        new_queue_def default_config_def size_q_def priority_value_simps)
  with capacity_invariant [of full_processor "''t3''" "''C''" "''high''"]
  show ?thesis by blast
qed

lemma lower_upper: "lower (upper s) = lower s"
  by (simp add: lower_def upper_def lower_char_def upper_char_def)

lemma lower_lower: "lower (lower s) = lower s"
  by (simp add: lower_def lower_char_def)

text \<open>
  Claim C10. A priority string whose lower-casing is none of \<^verbatim>\<open>high\<close>, \<^verbatim>\<open>medium\<close>,
  \<^verbatim>\<open>low\<close> gets the numeric priority 1, that of \<^verbatim>\<open>medium\<close>: \<^verbatim>\<open>enqueue_file\<close> answers
  as it does for \<^verbatim>\<open>medium\<close> and the keys in the queue are the same. The letter case of a
  priority string does not matter.
\<close>

theorem unrecognised_priority_as_medium:
  "(lower prio \<notin> {''high'', ''medium'', ''low''} \<longrightarrow>
      priority_value prio = 1 \<and>
      priority_value prio = priority_value ''medium'' \<and>
      fst (enqueue_file P now fp prio) = fst (enqueue_file P now fp ''medium'') \<and>
      map entry_key (queue (pqueue (snd (enqueue_file P now fp prio))))
        = map entry_key (queue (pqueue (snd (enqueue_file P now fp ''medium''))))) \<and>
   priority_value (upper prio) = priority_value prio \<and>
   priority_value (lower prio) = priority_value prio \<and>
   priority_value ''HIGH'' = 0 \<and> priority_value ''Medium'' = 1 \<and> priority_value ''LoW'' = 2"
proof -
  have one: "priority_value prio = 1" if "lower prio \<notin> {''high'', ''medium'', ''low''}"
    using that by (simp add: priority_value_def priority_map_def)
  have keys: "map entry_key (queue (pqueue (snd (enqueue_file P now fp prio))))
        = map entry_key (queue (pqueue (snd (enqueue_file P now fp ''medium''))))"
    if "priority_value prio = 1"
    using that by (simp add: enqueue_file_cases entry_key_def priority_value_simps)
  have flag: "fst (enqueue_file P now fp prio) = fst (enqueue_file P now fp ''medium'')"
    by (simp add: enqueue_file_cases)
  have up: "priority_value (upper prio) = priority_value prio"
    by (simp add: priority_value_def lower_upper)
  have low: "priority_value (lower prio) = priority_value prio"
    by (simp add: priority_value_def lower_lower)
  have ex: "priority_value ''HIGH'' = 0 \<and> priority_value ''Medium'' = 1
              \<and> priority_value ''LoW'' = 2"
    by (simp add: priority_value_def priority_map_def lower_def lower_char_def)
  from one keys flag up low ex show ?thesis by (simp add: priority_value_simps)
qed

text \<open>The theorem at the priority string \<^verbatim>\<open>Urgent\<close>.\<close>

theorem unrecognised_priority_as_medium_witness:
  "lower ''Urgent'' \<notin> {''high'', ''medium'', ''low''} \<and> priority_value ''Urgent'' = 1 \<and>
   map entry_key (queue (pqueue (snd (enqueue_file idle_processor ''t'' ''/w/a.wav'' ''Urgent''))))
     = map entry_key (queue (pqueue (snd (enqueue_file idle_processor ''t'' ''/w/a.wav'' ''medium''))))"
proof -
  have h: "lower ''Urgent'' \<notin> {''high'', ''medium'', ''low''}"
    by (simp add: lower_def lower_char_def)
  with unrecognised_priority_as_medium [of "''Urgent''" idle_processor "''t''" "''/w/a.wav''"]
  show ?thesis by blast
qed


section \<open>The concrete inputs, evaluated\<close>

lemma track_suffix: "path_suffix ''/w/a.wav'' = ''.wav''"
  by (simp add: path_suffix_def path_name_def)

lemma track_paths:
  "path_parent ''/w/a.wav'' = ''/w''" "path_stem ''/w/a.wav'' = ''a''"
  "path_name ''/w/a.wav'' = ''a.wav''"
  by (simp_all add: path_parent_def path_stem_def path_name_def track_suffix)

lemma quiet_world_calls:
  "analyze_audio_metadata quiet_world fp = Inr []" "mkdir quiet_world d = None"
  "copy2 quiet_world fp d = None" "import_audio_libs quiet_world = None"
  "librosa_load quiet_world fp = None" "process_full quiet_world = None"
  "master_track quiet_world preset = None" "sf_write quiet_world d = None"
  "unlink quiet_world fp = None" "log_append quiet_world d = None"
  "time_now quiet_world = 1000" "time_start quiet_world = 1000" "time_end quiet_world = 1001"
  "mark_time quiet_world d = 1001" "now_iso quiet_world = ''2024-01-01T00:16:40''"
  "stamp quiet_world = ''20240101_001640''"
  by (simp_all add: quiet_world_def)

lemma track_valid_variants:
  "validate_audio_file quiet_world ''/w/a.wav'' = (True, ''File is valid'')"
  "validate_audio_file (quiet_world\<lparr>sf_write := f\<rparr>) ''/w/a.wav'' = (True, ''File is valid'')"
  "validate_audio_file (quiet_world\<lparr>unlink := f\<rparr>) ''/w/a.wav'' = (True, ''File is valid'')"
  "validate_audio_file (quiet_world\<lparr>time_now := c\<rparr>) ''/w/a.wav'' = (True, ''File is valid'')"
  "validate_audio_file (quiet_world\<lparr>path_exists := (\<lambda>_. False)\<rparr>) ''/w/a.wav''
     = (False, ''File does not exist'')"
  by (simp_all add: validate_audio_file_def quiet_world_def is_audio_file_def track_suffix
      lower_def lower_char_def get_supported_formats_def)

lemma idle_processor_eq:
  "idle_processor =
     \<lparr>config = default_config, pqueue = \<lparr>queue = [], task_id = 0\<rparr>,
      handlers = [(''/w'', new_handler)], stats = initial_stats, running = True\<rparr>"
  by (simp add: idle_processor_def add_watch_folder_def new_processor_def new_queue_def)

lemma busy_processor_eq:
  "busy_processor = idle_processor\<lparr>pqueue := \<lparr>queue = [(0, 1, track_task)], task_id = 1\<rparr>\<rparr>"
  by (simp add: busy_processor_def enqueue_file_cases idle_processor_eq default_config_def
      size_q_def priority_value_simps track_task_def)

lemma track_should_process: "should_process quiet_world new_handler ''/w/a.wav''"
  by (simp add: should_process_def track_valid_variants track_suffix new_handler_def
      lower_def lower_char_def supported_exts_def)

section \<open>The event handler\<close>

lemma should_process_marked: "\<not> should_process w (mark_processed t fp h) fp"
  by (simp add: should_process_def mark_processed_def)

lemma should_process_last_processed:
  "should_process w (h\<lparr>last_processed := lp\<rparr>) fp = should_process w h fp"
  by (simp add: should_process_def)

text \<open>
  Claim C4, as stated, fails: the handler keeps no record of the paths that are queued or
  being processed. Two creation events for the same valid path put two tasks for that
  path into the queue.
\<close>

theorem duplicate_tasks_counterexample:
  "map (\<lambda>e. file_path (entry_item e))
     (queue (pqueue (on_created quiet_world new_handler track_event
        (on_created quiet_world new_handler track_event idle_processor))))
   = [''/w/a.wav'', ''/w/a.wav'']"
  by (simp add: on_created_def track_event_def track_should_process enqueue_file_cases
      idle_processor_eq default_config_def size_q_def entry_item_def task_of_def Let_def)

text \<open>
  Claim C4, amended. The handler refuses a path once \<^verbatim>\<open>mark_processed\<close> has put it
  into \<^verbatim>\<open>processed_files\<close>, for created and modified events alike. A creation event for
  a path that passes \<^verbatim>\<open>_should_process\<close> is enqueued, when the queue is not full, also
  when the queue already holds a task for that path: the number of queued tasks for the
  path grows by one.
\<close>

theorem handler_refuses_only_processed:
  "on_created w (mark_processed t (src_path ev) h) ev P = P \<and>
   on_modified w (mark_processed t (src_path ev) h) ev P = P \<and>
   (\<not> is_directory ev \<and> should_process w h (src_path ev) \<and>
    size_q (pqueue P) < max_queue_size (config P) \<and>
    (\<exists>e \<in> set (queue (pqueue P)). file_path (entry_item e) = src_path ev) \<longrightarrow>
      length (filter (\<lambda>e. file_path (entry_item e) = src_path ev)
                (queue (pqueue (on_created w h ev P))))
        = Suc (length (filter (\<lambda>e. file_path (entry_item e) = src_path ev)
                         (queue (pqueue P)))))"
  by (simp add: on_created_def on_modified_def should_process_marked enqueue_file_cases
      entry_item_def task_of_def)

text \<open>
  The amended C4 at a processor that already holds a task for the track.
\<close>

theorem handler_refuses_only_processed_witness:
  "\<not> is_directory track_event \<and> should_process quiet_world new_handler (src_path track_event) \<and>
   size_q (pqueue busy_processor) < max_queue_size (config busy_processor) \<and>
   (0, 1, track_task) \<in> set (queue (pqueue busy_processor)) \<and>
   file_path (entry_item (0, 1, track_task)) = src_path track_event \<and>
   length (filter (\<lambda>e. file_path (entry_item e) = src_path track_event)
             (queue (pqueue (on_created quiet_world new_handler track_event busy_processor)))) = 2"
proof -
  have h: "\<not> is_directory track_event \<and>
      should_process quiet_world new_handler (src_path track_event) \<and>
      size_q (pqueue busy_processor) < max_queue_size (config busy_processor) \<and>
      (\<exists>e \<in> set (queue (pqueue busy_processor)). file_path (entry_item e) = src_path track_event)"
    by (simp add: track_event_def track_should_process busy_processor_eq idle_processor_eq
        default_config_def size_q_def entry_item_def track_task_def task_of_def)
  have n: "length (filter (\<lambda>e. file_path (entry_item e) = src_path track_event)
             (queue (pqueue busy_processor))) = 1"
    by (simp add: track_event_def busy_processor_eq entry_item_def track_task_def task_of_def)
  have m: "(0, 1, track_task) \<in> set (queue (pqueue busy_processor)) \<and>
      file_path (entry_item (0, 1, track_task)) = src_path track_event"
    by (simp add: track_event_def busy_processor_eq entry_item_def track_task_def task_of_def)
  from handler_refuses_only_processed
         [of quiet_world 0 track_event new_handler busy_processor] h n m
  show ?thesis by simp
qed




text \<open>
  Claim C6, as stated, fails: a creation event for the track after it has been marked
  processed enqueues nothing.
\<close>

theorem created_after_processing_counterexample:
  "queue (pqueue (on_created quiet_world marked_handler track_event idle_processor)) = []"
  by (simp add: on_created_def marked_handler_def track_event_def should_process_marked
      idle_processor_eq)

text \<open>
  Claim C6, amended. A creation event for a path that passes \<^verbatim>\<open>_should_process\<close> (so
  one not yet in \<^verbatim>\<open>processed_files\<close>) is handed to \<^verbatim>\<open>enqueue_file\<close> at priority
  \<^verbatim>\<open>high\<close>; the decision does not read \<^verbatim>\<open>last_processed\<close>, and with room in the queue
  the task lands there with numeric priority 0. Once the path has been marked processed,
  a creation event for it is rejected.
\<close>

theorem created_admission:
  "(\<not> is_directory ev \<and> should_process w h (src_path ev) \<longrightarrow>
      on_created w h ev P = snd (enqueue_file P (now_iso w) (src_path ev) ''high'') \<and>
      on_created w (h\<lparr>last_processed := lp\<rparr>) ev P = on_created w h ev P \<and>
      (size_q (pqueue P) < max_queue_size (config P) \<longrightarrow>
         queue (pqueue (on_created w h ev P))
           = queue (pqueue P)
             @ [(0, Suc (task_id (pqueue P)), task_of (now_iso w, src_path ev, ''high''))])) \<and>
   on_created w (mark_processed t (src_path ev) h) ev P = P"
  by (simp add: on_created_def should_process_marked should_process_last_processed
      enqueue_file_cases priority_value_simps)

text \<open>
  The amended C6 at the valid track, with and without a recent \<^verbatim>\<open>last_processed\<close> entry.
\<close>

theorem created_admission_witness:
  "\<not> is_directory track_event \<and> should_process quiet_world new_handler (src_path track_event) \<and>
   size_q (pqueue idle_processor) < max_queue_size (config idle_processor) \<and>
   on_created quiet_world (new_handler\<lparr>last_processed := [''/w/a.wav'' \<mapsto> 990]\<rparr>)
       track_event idle_processor
     = on_created quiet_world new_handler track_event idle_processor \<and>
   queue (pqueue (on_created quiet_world new_handler track_event idle_processor))
     = [(0, 1, task_of (''2024-01-01T00:16:40'', ''/w/a.wav'', ''high''))]"
proof -
  have h: "\<not> is_directory track_event \<and>
      should_process quiet_world new_handler (src_path track_event)"
    by (simp add: track_event_def track_should_process)
  have c: "size_q (pqueue idle_processor) < max_queue_size (config idle_processor)"
    by (simp add: idle_processor_eq default_config_def size_q_def)
  have v: "queue (pqueue idle_processor) = [] \<and> task_id (pqueue idle_processor) = 0 \<and>
      now_iso quiet_world = ''2024-01-01T00:16:40'' \<and> src_path track_event = ''/w/a.wav''"
    by (simp add: idle_processor_eq quiet_world_def track_event_def)
  from created_admission
         [of track_event quiet_world new_handler idle_processor "[''/w/a.wav'' \<mapsto> 990]" 0] h c
  have "on_created quiet_world (new_handler\<lparr>last_processed := [''/w/a.wav'' \<mapsto> 990]\<rparr>)
            track_event idle_processor
          = on_created quiet_world new_handler track_event idle_processor \<and>
        queue (pqueue (on_created quiet_world new_handler track_event idle_processor))
          = queue (pqueue idle_processor)
            @ [(0, Suc (task_id (pqueue idle_processor)),
                task_of (now_iso quiet_world, src_path track_event, ''high''))]"
    by blast
  with h c v show ?thesis by simp
qed

section \<open>Processing a file\<close>

lemmas stmt_defs = call_def assign_def if_then_def on_result_def

lemma process_file_try_facts:
  assumes "process_file_try cfg w fp (r0, hs0) = (fl, r, hs)"
  shows "res_start_time r = res_start_time r0 \<and> res_task r = res_task r0 \<and>
         res_file_path r = res_file_path r0"
    and "fl = Raise e \<longrightarrow> errors r = errors r0"
    and "fl = Raise e \<and> success r \<and> \<not> success r0 \<longrightarrow>
           auto_delete_original cfg \<and> unlink w fp = Some e"
    and "(fl = Return) = (\<not> fst (validate_audio_file w fp))"
    and "fl = Return \<longrightarrow>
           r = r0\<lparr>errors := errors r0 @ [''Validation failed: '' @ snd (validate_audio_file w fp)]\<rparr>
           \<and> hs = hs0"
    and "fl = Normal \<longrightarrow> success r \<and> errors r = errors r0"
    and "\<not> success r \<longrightarrow> hs = hs0"
  using assms
  unfolding process_file_try_def Let_def block.simps stmt_defs
  by (auto split: if_splits option.splits sum.splits prod.splits)

lemma process_file_body_cases:
  assumes "process_file_try (config P) w (file_path t) (initial_result w t, handlers P) = (fl, r, hs)"
  shows "process_file P w t =
     Inr ((case fl of Raise e \<Rightarrow> r\<lparr>errors := errors r @ [e]\<rparr> | _ \<Rightarrow> r)
            \<lparr>processing_time := time_end w - time_start w, res_end_time := Some (time_end w)\<rparr>,
          P\<lparr>handlers := hs\<rparr>)"
proof -
  have st: "res_start_time r = time_start w"
    using process_file_try_facts(1) [OF assms] by (simp add: initial_result_def)
  show ?thesis
    using assms st
    by (cases fl)
       (simp_all add: process_file_def try_finally_def try_except_def process_file_except_def
          process_file_finally_def assign_def on_result_def Let_def)
qed

lemma process_file_returns:
  "\<exists>res hs. process_file P w t = Inr (res, P\<lparr>handlers := hs\<rparr>) \<and> res_task res = t"
proof -
  obtain fl r hs where b:
    "process_file_try (config P) w (file_path t) (initial_result w t, handlers P) = (fl, r, hs)"
    by (metis prod_cases3)
  have "res_task r = t"
    using process_file_try_facts(1) [OF b] by (simp add: initial_result_def)
  then show ?thesis
    by (cases fl) (auto simp: process_file_body_cases [OF b])
qed

lemma process_file_raised:
  assumes "raised_in_try P w t = Some e"
  shows "errors (fst (projr (process_file P w t))) = [e]"
    and "success (fst (projr (process_file P w t))) \<Longrightarrow>
           auto_delete_original (config P) \<and> unlink w (file_path t) = Some e"
proof -
  obtain fl r hs where b:
    "process_file_try (config P) w (file_path t) (initial_result w t, handlers P) = (fl, r, hs)"
    by (metis prod_cases3)
  from assms b have fl: "fl = Raise e"
    by (auto simp: raised_in_try_def split: flow.splits)
  have e0: "errors r = []"
    using process_file_try_facts(2) [OF b, of e] fl by (simp add: initial_result_def)
  show "errors (fst (projr (process_file P w t))) = [e]"
    by (simp add: process_file_body_cases [OF b] fl e0)
  show "auto_delete_original (config P) \<and> unlink w (file_path t) = Some e"
    if "success (fst (projr (process_file P w t)))"
    using that process_file_try_facts(3) [OF b, of e] fl
    by (simp add: process_file_body_cases [OF b] initial_result_def)
qed

lemma process_file_invalid:
  assumes "\<not> fst (validate_audio_file w (file_path t))"
  shows "\<not> success (fst (projr (process_file P w t))) \<and>
         errors (fst (projr (process_file P w t)))
           = [''Validation failed: '' @ snd (validate_audio_file w (file_path t))]"
proof -
  obtain fl r hs where b:
    "process_file_try (config P) w (file_path t) (initial_result w t, handlers P) = (fl, r, hs)"
    by (metis prod_cases3)
  from assms process_file_try_facts(4) [OF b] have fl: "fl = Return" by simp
  with process_file_try_facts(5) [OF b] show ?thesis
    by (simp add: process_file_body_cases [OF b] initial_result_def)
qed

section \<open>The worker\<close>

lemma worker_iteration_cases:
  "worker_iteration wid w P =
     (if queue (pqueue P) = [] then Inr (Slept (1 / 2), P)
      else let q = snd (dequeue (pqueue P));
               t = the (fst (dequeue (pqueue P)));
               res = fst (projr (process_file (P\<lparr>pqueue := q\<rparr>) w t));
               P1 = snd (projr (process_file (P\<lparr>pqueue := q\<rparr>) w t));
               P2 = P1\<lparr>stats := (stats P1)
                      \<lparr>stat_processed_files := stat_processed_files (stats P1) + 1,
                       stat_total_processing_time :=
                         stat_total_processing_time (stats P1) + processing_time res,
                       stat_last_activity := Some (now_iso w),
                       stat_failed_files :=
                         stat_failed_files (stats P1) + (if success res then 0 else 1)\<rparr>\<rparr>
           in case mkdir w (path_parent (log_file (config P))) of
                Some e \<Rightarrow> Inl e
              | None \<Rightarrow> Inr (Completed res (log_append w (log_file (config P)) = None), P2))"
proof (cases "queue (pqueue P)")
  case Nil
  then show ?thesis
    by (simp add: worker_iteration_def dequeue_def pq_get_nowait_def)
next
  case (Cons e es)
  let ?q = "snd (dequeue (pqueue P))"
  let ?t = "the (fst (dequeue (pqueue P)))"
  from Cons have d: "dequeue (pqueue P) = (Some ?t, ?q)"
    by (simp add: dequeue_def pq_get_nowait_def Let_def)
  obtain res hs where pf:
    "process_file (P\<lparr>pqueue := ?q\<rparr>) w ?t = Inr (res, P\<lparr>pqueue := ?q, handlers := hs\<rparr>)"
    using process_file_returns [of "P\<lparr>pqueue := ?q\<rparr>" w ?t] by auto
  show ?thesis
    unfolding worker_iteration_def
    by (subst d) (simp add: Cons pf log_result_def Let_def split: option.splits)
qed

lemma dequeue_empty: "queue q = [] \<Longrightarrow> dequeue q = (None, q)"
  by (simp add: dequeue_def pq_get_nowait_def)

lemma dequeue_nonempty:
  assumes "queue q \<noteq> []"
  shows "\<exists>e \<in> set (queue q).
           dequeue q = (Some (entry_item e), q\<lparr>queue := remove1 e (queue q)\<rparr>) \<and>
           (\<forall>x \<in> set (queue q). entry_key e \<le> entry_key x)"
proof -
  from assms obtain a as where q: "queue q = a # as" by (cases "queue q") auto
  let ?m = "pq_min a as"
  have "?m \<in> set (queue q)" using pq_min_mem [of a as] by (simp add: q)
  moreover have "dequeue q = (Some (entry_item ?m), q\<lparr>queue := remove1 ?m (queue q)\<rparr>)"
    by (simp add: dequeue_def pq_get_nowait_def q Let_def)
  moreover have "\<forall>x \<in> set (queue q). entry_key ?m \<le> entry_key x"
    using pq_min_least [of _ a as] by (simp add: q)
  ultimately show ?thesis by blast
qed

lemma dequeue_frame:
  "task_id (snd (dequeue q)) = task_id q"
  "length (queue (snd (dequeue q))) \<le> length (queue q)"
proof -
  show "task_id (snd (dequeue q)) = task_id q"
  proof (cases "queue q = []")
    case True
    then show ?thesis by (simp add: dequeue_empty)
  next
    case False
    from dequeue_nonempty [OF False] show ?thesis by auto
  qed
  show "length (queue (snd (dequeue q))) \<le> length (queue q)"
  proof (cases "queue q = []")
    case True
    then show ?thesis by (simp add: dequeue_empty)
  next
    case False
    from dequeue_nonempty [OF False] show ?thesis by (auto simp: length_remove1)
  qed
qed

lemma worker_iteration_empty:
  "queue (pqueue P) = [] \<Longrightarrow> worker_iteration wid w P = Inr (Slept (1 / 2), P)"
  by (simp add: worker_iteration_cases)

lemma worker_iteration_nonempty:
  assumes "queue (pqueue P) \<noteq> []"
  shows "\<exists>e \<in> set (queue (pqueue P)). \<exists>res hs.
           res_task res = entry_item e \<and>
           process_file (P\<lparr>pqueue := snd (dequeue (pqueue P))\<rparr>) w (entry_item e)
             = Inr (res, P\<lparr>pqueue := snd (dequeue (pqueue P)), handlers := hs\<rparr>) \<and>
           queue (snd (dequeue (pqueue P))) = remove1 e (queue (pqueue P)) \<and>
           task_id (snd (dequeue (pqueue P))) = task_id (pqueue P) \<and>
           worker_iteration wid w P =
             (case mkdir w (path_parent (log_file (config P))) of
                Some err \<Rightarrow> Inl err
              | None \<Rightarrow>
                  Inr (Completed res (log_append w (log_file (config P)) = None),
                       P\<lparr>pqueue := snd (dequeue (pqueue P)), handlers := hs,
                         stats := (stats P)
                           \<lparr>stat_processed_files := stat_processed_files (stats P) + 1,
                            stat_total_processing_time :=
                              stat_total_processing_time (stats P) + processing_time res,
                            stat_last_activity := Some (now_iso w),
                            stat_failed_files :=
                              stat_failed_files (stats P) + (if success res then 0 else 1)\<rparr>\<rparr>))"
proof -
  from dequeue_nonempty [OF assms] obtain e where e: "e \<in> set (queue (pqueue P))"
    and d: "dequeue (pqueue P)
              = (Some (entry_item e), (pqueue P)\<lparr>queue := remove1 e (queue (pqueue P))\<rparr>)"
    by blast
  let ?q = "snd (dequeue (pqueue P))"
  obtain res hs where pf:
    "process_file (P\<lparr>pqueue := ?q\<rparr>) w (entry_item e)
       = Inr (res, P\<lparr>pqueue := ?q, handlers := hs\<rparr>)" and rt: "res_task res = entry_item e"
    using process_file_returns [of "P\<lparr>pqueue := ?q\<rparr>" w "entry_item e"] by auto
  have "worker_iteration wid w P =
             (case mkdir w (path_parent (log_file (config P))) of
                Some err \<Rightarrow> Inl err
              | None \<Rightarrow>
                  Inr (Completed res (log_append w (log_file (config P)) = None),
                       P\<lparr>pqueue := ?q, handlers := hs,
                         stats := (stats P)
                           \<lparr>stat_processed_files := stat_processed_files (stats P) + 1,
                            stat_total_processing_time :=
                              stat_total_processing_time (stats P) + processing_time res,
                            stat_last_activity := Some (now_iso w),
                            stat_failed_files :=
                              stat_failed_files (stats P) + (if success res then 0 else 1)\<rparr>\<rparr>))"
    using assms pf by (simp add: worker_iteration_cases d Let_def split: option.splits)
  with e pf rt d show ?thesis by auto
qed

lemma worker_iteration_frame:
  assumes "worker_iteration wid w P = Inr (ev, P')"
  shows "config P' = config P" "running P' = running P"
    "pqueue P' = snd (dequeue (pqueue P))"
proof -
  have "config P' = config P \<and> running P' = running P \<and> pqueue P' = snd (dequeue (pqueue P))"
  proof (cases "queue (pqueue P) = []")
    case True
    with assms show ?thesis by (simp add: worker_iteration_empty dequeue_empty)
  next
    case False
    from worker_iteration_nonempty [OF False, of w wid] assms show ?thesis
      by (auto split: option.splits)
  qed
  then show "config P' = config P" "running P' = running P"
    "pqueue P' = snd (dequeue (pqueue P))" by simp_all
qed

lemma worker_iteration_completed:
  assumes "worker_iteration wid w P = Inr (Completed res written, P')"
  shows "stat_processed_files (stats P') = stat_processed_files (stats P) + 1"
    "stat_failed_files (stats P') = stat_failed_files (stats P) + (if success res then 0 else 1)"
    "stat_total_processing_time (stats P')
       = stat_total_processing_time (stats P) + processing_time res"
    "\<exists>e \<in> set (queue (pqueue P)). res_task res = entry_item e \<and>
        queue (pqueue P') = remove1 e (queue (pqueue P)) \<and>
        task_id (pqueue P') = task_id (pqueue P)"
proof -
  have ne: "queue (pqueue P) \<noteq> []"
    using assms by (auto simp: worker_iteration_empty)
  from worker_iteration_nonempty [OF ne, of w wid] assms
  have "stat_processed_files (stats P') = stat_processed_files (stats P) + 1 \<and>
    stat_failed_files (stats P') = stat_failed_files (stats P) + (if success res then 0 else 1) \<and>
    stat_total_processing_time (stats P')
       = stat_total_processing_time (stats P) + processing_time res \<and>
    (\<exists>e \<in> set (queue (pqueue P)). res_task res = entry_item e \<and>
        queue (pqueue P') = remove1 e (queue (pqueue P)) \<and>
        task_id (pqueue P') = task_id (pqueue P))"
    by (auto split: option.splits)
  then show "stat_processed_files (stats P') = stat_processed_files (stats P) + 1"
    "stat_failed_files (stats P') = stat_failed_files (stats P) + (if success res then 0 else 1)"
    "stat_total_processing_time (stats P')
       = stat_total_processing_time (stats P) + processing_time res"
    "\<exists>e \<in> set (queue (pqueue P)). res_task res = entry_item e \<and>
        queue (pqueue P') = remove1 e (queue (pqueue P)) \<and>
        task_id (pqueue P') = task_id (pqueue P)"
    by blast+
qed

lemma worker_iteration_slept:
  assumes "worker_iteration wid w P = Inr (Slept d, P')"
  shows "P' = P"
proof (cases "queue (pqueue P) = []")
  case True
  with assms show ?thesis by (simp add: worker_iteration_empty)
next
  case False
  from worker_iteration_nonempty [OF False, of w wid] assms show ?thesis
    by (auto split: option.splits)
qed

lemma worker_loop_Cons_Inr:
  assumes "worker_loop wid (w # ws) P = Inr (evs, P')" "running P"
  obtains ev P1 evs' where "worker_iteration wid w P = Inr (ev, P1)"
    "worker_loop wid ws P1 = Inr (evs', P')" "evs = ev # evs'"
  using assms by (auto split: sum.splits prod.splits)

lemma worker_loop_stats:
  "worker_loop wid ws P = Inr (evs, P') \<Longrightarrow>
     stat_processed_files (stats P')
       = stat_processed_files (stats P) + int (length (completed_results evs)) \<and>
     stat_failed_files (stats P')
       = stat_failed_files (stats P)
         + int (length (filter (\<lambda>r. \<not> success r) (completed_results evs))) \<and>
     stat_total_processing_time (stats P')
       = stat_total_processing_time (stats P)
         + sum_list (map processing_time (completed_results evs))"
proof (induction ws arbitrary: P evs)
  case Nil
  then show ?case by simp
next
  case (Cons w ws)
  show ?case
  proof (cases "running P")
    case False
    with Cons.prems show ?thesis by simp
  next
    case True
    from Cons.prems True obtain ev P1 evs' where it: "worker_iteration wid w P = Inr (ev, P1)"
      and rest: "worker_loop wid ws P1 = Inr (evs', P')" and evs: "evs = ev # evs'"
      by (rule worker_loop_Cons_Inr)
    note IH = Cons.IH [OF rest]
    show ?thesis
    proof (cases ev)
      case (Slept d)
      with it have "P1 = P" by (simp add: worker_iteration_slept)
      with IH Slept evs show ?thesis by simp
    next
      case (Completed res written)
      with it worker_iteration_completed(1-3) [of wid w P res written P1] IH evs
      show ?thesis by simp
    qed
  qed
qed

lemma mset_map_remove1:
  "e \<in> set xs \<Longrightarrow> mset (map f xs) = {#f e#} + mset (map f (remove1 e xs))"
  by (induction xs) auto

lemma worker_loop_tasks:
  "worker_loop wid ws P = Inr (evs, P') \<Longrightarrow>
     task_id (pqueue P') = task_id (pqueue P) \<and>
     mset (map entry_item (queue (pqueue P)))
       = mset (map res_task (completed_results evs)) + mset (map entry_item (queue (pqueue P')))"
proof (induction ws arbitrary: P evs)
  case Nil
  then show ?case by simp
next
  case (Cons w ws)
  show ?case
  proof (cases "running P")
    case False
    with Cons.prems show ?thesis by simp
  next
    case True
    from Cons.prems True obtain ev P1 evs' where it: "worker_iteration wid w P = Inr (ev, P1)"
      and rest: "worker_loop wid ws P1 = Inr (evs', P')" and evs: "evs = ev # evs'"
      by (rule worker_loop_Cons_Inr)
    note IH = Cons.IH [OF rest]
    show ?thesis
    proof (cases ev)
      case (Slept d)
      with it have "P1 = P" by (simp add: worker_iteration_slept)
      with IH Slept evs show ?thesis by simp
    next
      case (Completed res written)
      with it worker_iteration_completed(4) [of wid w P res written P1]
      obtain e where e: "e \<in> set (queue (pqueue P))" "res_task res = entry_item e"
        "queue (pqueue P1) = remove1 e (queue (pqueue P))"
        "task_id (pqueue P1) = task_id (pqueue P)" by blast
      from e(1) have "mset (map entry_item (queue (pqueue P)))
          = {#entry_item e#} + mset (map entry_item (remove1 e (queue (pqueue P))))"
        by (rule mset_map_remove1)
      with IH e Completed evs show ?thesis by simp
    qed
  qed
qed

lemma worker_loop_continues:
  "\<forall>w \<in> set ws. mkdir w (path_parent (log_file (config P))) = None \<Longrightarrow>
     \<exists>evs P'. worker_loop wid ws P = Inr (evs, P') \<and> (running P \<longrightarrow> length evs = length ws)"
proof (induction ws arbitrary: P)
  case Nil
  show ?case by simp
next
  case (Cons w ws)
  show ?case
  proof (cases "running P")
    case False
    then show ?thesis by simp
  next
    case True
    from Cons.prems have m: "mkdir w (path_parent (log_file (config P))) = None" by simp
    have "\<exists>ev P1. worker_iteration wid w P = Inr (ev, P1)"
    proof (cases "queue (pqueue P) = []")
      case True
      then show ?thesis by (simp add: worker_iteration_empty)
    next
      case False
      from worker_iteration_nonempty [OF False, of w wid] m show ?thesis by auto
    qed
    then obtain ev P1 where it: "worker_iteration wid w P = Inr (ev, P1)" by blast
    from worker_iteration_frame [OF it] have fr: "config P1 = config P" "running P1 = running P"
      by simp_all
    from Cons.prems fr have "\<forall>w \<in> set ws. mkdir w (path_parent (log_file (config P1))) = None"
      by simp
    from Cons.IH [OF this] obtain evs P' where
      "worker_loop wid ws P1 = Inr (evs, P')" "running P1 \<longrightarrow> length evs = length ws" by blast
    with it True fr show ?thesis by simp
  qed
qed

section \<open>The worker on the concrete inputs\<close>

lemmas concrete_defs =
  delete_fail_world_def disk_full_world_def missing_world_def quiet_world_calls
  track_valid_variants track_paths track_suffix deleting_processor_def busy_processor_eq
  idle_processor_eq default_config_def initial_result_def track_task_def task_of_def
  path_join_def

lemma delete_fail_try:
  "process_file_try (config deleting_processor) delete_fail_world ''/w/a.wav''
         (initial_result delete_fail_world track_task, handlers deleting_processor)
     = (Raise ''[Errno 13] Permission denied'',
        (initial_result delete_fail_world track_task)
          \<lparr>res_metadata := Some [], backup_path := Some ''/w/backups/original_a.wav'',
           artifacts_removed := True, mastering_preset := Some ''spotify_ready'',
           success := True,
           output_path := Some ''/w/processed/processed_a_20240101_001640.wav''\<rparr>,
        [(''/w'', mark_processed 1001 ''/w/a.wav'' new_handler)])"
  unfolding process_file_try_def Let_def block.simps stmt_defs
  by (simp add: concrete_defs)

lemma disk_full_try:
  "process_file_try (config busy_processor) disk_full_world ''/w/a.wav''
         (initial_result disk_full_world track_task, handlers busy_processor)
     = (Raise ''[Errno 28] No space left on device'',
        (initial_result disk_full_world track_task)
          \<lparr>res_metadata := Some [], backup_path := Some ''/w/backups/original_a.wav'',
           artifacts_removed := True, mastering_preset := Some ''spotify_ready''\<rparr>,
        [(''/w'', new_handler)])"
  unfolding process_file_try_def Let_def block.simps stmt_defs
  by (simp add: concrete_defs)

lemma busy_dequeue:
  "dequeue (pqueue busy_processor) = (Some track_task, \<lparr>queue = [], task_id = 1\<rparr>)"
  by (simp add: dequeue_def pq_get_nowait_def busy_processor_eq entry_item_def)

lemma disk_full_process:
  "process_file (busy_processor\<lparr>pqueue := q\<rparr>) disk_full_world track_task
     = Inr ((initial_result disk_full_world track_task)
              \<lparr>res_metadata := Some [], backup_path := Some ''/w/backups/original_a.wav'',
               artifacts_removed := True, mastering_preset := Some ''spotify_ready'',
               errors := [''[Errno 28] No space left on device''],
               processing_time := 1, res_end_time := Some 1001\<rparr>,
            busy_processor\<lparr>pqueue := q, handlers := [(''/w'', new_handler)]\<rparr>)"
proof -
  have fp: "file_path track_task = ''/w/a.wav''" by (simp add: track_task_def task_of_def)
  have b: "process_file_try (config (busy_processor\<lparr>pqueue := q\<rparr>)) disk_full_world
             (file_path track_task)
             (initial_result disk_full_world track_task, handlers (busy_processor\<lparr>pqueue := q\<rparr>))
     = (Raise ''[Errno 28] No space left on device'',
        (initial_result disk_full_world track_task)
          \<lparr>res_metadata := Some [], backup_path := Some ''/w/backups/original_a.wav'',
           artifacts_removed := True, mastering_preset := Some ''spotify_ready''\<rparr>,
        [(''/w'', new_handler)])"
    using disk_full_try by (simp add: fp)
  show ?thesis
    by (subst process_file_body_cases [OF b])
       (simp add: initial_result_def disk_full_world_def quiet_world_calls)
qed

lemma delete_fail_process:
  "process_file deleting_processor delete_fail_world track_task
     = Inr ((initial_result delete_fail_world track_task)
              \<lparr>res_metadata := Some [], backup_path := Some ''/w/backups/original_a.wav'',
               artifacts_removed := True, mastering_preset := Some ''spotify_ready'',
               success := True,
               output_path := Some ''/w/processed/processed_a_20240101_001640.wav'',
               errors := [''[Errno 13] Permission denied''],
               processing_time := 1, res_end_time := Some 1001\<rparr>,
            deleting_processor
              \<lparr>handlers := [(''/w'', mark_processed 1001 ''/w/a.wav'' new_handler)]\<rparr>)"
proof -
  have fp: "file_path track_task = ''/w/a.wav''" by (simp add: track_task_def task_of_def)
  note b = delete_fail_try [folded fp]
  show ?thesis
    by (subst process_file_body_cases [OF b])
       (simp add: initial_result_def delete_fail_world_def quiet_world_calls fp)
qed

lemma disk_full_iteration:
  "worker_iteration 0 disk_full_world busy_processor
     = Inr (Completed failed_result True, after_failure)"
  unfolding worker_iteration_def busy_dequeue failed_result_def after_failure_def
  by (simp add: disk_full_process log_result_def Let_def initial_result_def)
     (simp add: busy_processor_eq idle_processor_eq initial_stats_def disk_full_world_def
        quiet_world_calls)

lemma disk_full_loop:
  "worker_loop 0 [disk_full_world, quiet_world] busy_processor
     = Inr ([Completed failed_result True, Slept (1 / 2)], after_failure)"
proof -
  have r: "running busy_processor" "running after_failure"
    "queue (pqueue after_failure) = []"
    by (simp_all add: after_failure_def busy_processor_eq idle_processor_eq)
  show ?thesis
    by (simp add: r disk_full_iteration worker_iteration_empty)
qed

section \<open>Failure isolation, retries, polling and statistics\<close>

text \<open>
  Claim C2. The code departs from the claim at this input: with
  \<^verbatim>\<open>auto_delete_original\<close> set, \<^verbatim>\<open>file_path.unlink()\<close> raises after
  \<^verbatim>\<open>result['success'] = True\<close> has run. The exception is caught and its message is
  appended to \<^verbatim>\<open>errors\<close>, but the handler does not reset the flag: the result that
  \<^verbatim>\<open>process_file\<close> returns has \<^verbatim>\<open>success\<close> true, and the worker counts the task as
  processed and not as failed.
\<close>

theorem delete_failure_keeps_success:
  "raised_in_try deleting_processor delete_fail_world track_task
     = Some ''[Errno 13] Permission denied'' \<and>
   success (fst (projr (process_file deleting_processor delete_fail_world track_task))) \<and>
   errors (fst (projr (process_file deleting_processor delete_fail_world track_task)))
     = [''[Errno 13] Permission denied''] \<and>
   stat_processed_files
     (stats (snd (projr (worker_iteration 0 delete_fail_world deleting_processor)))) = 1 \<and>
   stat_failed_files
     (stats (snd (projr (worker_iteration 0 delete_fail_world deleting_processor)))) = 0"
proof -
  have fp: "file_path track_task = ''/w/a.wav''" by (simp add: track_task_def task_of_def)
  have r: "raised_in_try deleting_processor delete_fail_world track_task
          = Some ''[Errno 13] Permission denied''"
    by (simp add: raised_in_try_def fp delete_fail_try)
  have ne: "queue (pqueue deleting_processor) \<noteq> []"
    by (simp add: deleting_processor_def busy_processor_eq)
  have d: "dequeue (pqueue deleting_processor) = (Some track_task, \<lparr>queue = [], task_id = 1\<rparr>)"
    using busy_dequeue by (simp add: deleting_processor_def)
  have same: "process_file (deleting_processor\<lparr>pqueue := q\<rparr>) delete_fail_world track_task
      = map_sum id (\<lambda>(res, P). (res, P\<lparr>pqueue := q\<rparr>))
          (process_file deleting_processor delete_fail_world track_task)" for q
    by (simp add: process_file_def Let_def case_prod_unfold split: flow.splits)
  have m: "mkdir delete_fail_world d = None" for d
    by (simp add: delete_fail_world_def quiet_world_calls)
  have st: "stats deleting_processor = initial_stats"
    by (simp add: deleting_processor_def busy_processor_eq idle_processor_eq)
  have it: "stat_processed_files
       (stats (snd (projr (worker_iteration 0 delete_fail_world deleting_processor)))) = 1 \<and>
     stat_failed_files
       (stats (snd (projr (worker_iteration 0 delete_fail_world deleting_processor)))) = 0"
    unfolding worker_iteration_def d
    by (simp add: same delete_fail_process log_result_def m Let_def st initial_stats_def)
  from r it show ?thesis by (simp add: delete_fail_process)
qed

text \<open>
  What holds on every input. \<^verbatim>\<open>process_file\<close> always returns a result. When the body
  of its \<^verbatim>\<open>try\<close> raises, the message is the one entry of the result's \<^verbatim>\<open>errors\<close>, and
  \<^verbatim>\<open>success\<close> is false whenever \<^verbatim>\<open>auto_delete_original\<close> is off or \<^verbatim>\<open>unlink\<close> does
  not raise that exception. A file that fails validation gives a result with \<^verbatim>\<open>success\<close>
  false and the validation message. When the creation of the log directory in
  \<^verbatim>\<open>_log_result\<close> does not raise, the worker loop runs every iteration, whatever happens
  to the tasks.
\<close>

lemma exceptions_caught:
  "\<not> isl (process_file P w t) \<and>
   (raised_in_try P w t = Some e \<longrightarrow>
      errors (fst (projr (process_file P w t))) = [e] \<and>
      (\<not> auto_delete_original (config P) \<or> unlink w (file_path t) \<noteq> Some e \<longrightarrow>
         \<not> success (fst (projr (process_file P w t))))) \<and>
   (\<not> fst (validate_audio_file w' (file_path t')) \<longrightarrow>
      \<not> success (fst (projr (process_file P' w' t'))) \<and>
      errors (fst (projr (process_file P' w' t')))
        = [''Validation failed: '' @ snd (validate_audio_file w' (file_path t'))]) \<and>
   ((\<forall>x \<in> set ws. mkdir x (path_parent (log_file (config Q))) = None) \<longrightarrow>
      \<not> isl (worker_loop wid ws Q) \<and>
      (running Q \<longrightarrow> length (fst (projr (worker_loop wid ws Q))) = length ws))"
proof -
  have a: "\<not> isl (process_file P w t)"
    using process_file_returns [of P w t] by auto
  have b: "errors (fst (projr (process_file P w t))) = [e] \<and>
      (\<not> auto_delete_original (config P) \<or> unlink w (file_path t) \<noteq> Some e \<longrightarrow>
         \<not> success (fst (projr (process_file P w t))))"
    if "raised_in_try P w t = Some e"
    using process_file_raised [OF that] by blast
  have c: "\<not> success (fst (projr (process_file P' w' t'))) \<and>
      errors (fst (projr (process_file P' w' t')))
        = [''Validation failed: '' @ snd (validate_audio_file w' (file_path t'))]"
    if "\<not> fst (validate_audio_file w' (file_path t'))"
    using that by (rule process_file_invalid)
  have d: "\<not> isl (worker_loop wid ws Q) \<and>
      (running Q \<longrightarrow> length (fst (projr (worker_loop wid ws Q))) = length ws)"
    if "\<forall>x \<in> set ws. mkdir x (path_parent (log_file (config Q))) = None"
    using worker_loop_continues [OF that, of wid] by auto
  from a b c d show ?thesis by blast
qed

text \<open>The same at a full disk, at a missing file and at a loop of two iterations.\<close>

lemma exceptions_caught_at_full_disk:
  "raised_in_try busy_processor disk_full_world track_task
     = Some ''[Errno 28] No space left on device'' \<and>
   \<not> auto_delete_original (config busy_processor) \<and>
   errors (fst (projr (process_file busy_processor disk_full_world track_task)))
     = [''[Errno 28] No space left on device''] \<and>
   \<not> success (fst (projr (process_file busy_processor disk_full_world track_task))) \<and>
   \<not> fst (validate_audio_file missing_world (file_path track_task)) \<and>
   errors (fst (projr (process_file busy_processor missing_world track_task)))
     = [''Validation failed: File does not exist''] \<and>
   mkdir disk_full_world (path_parent (log_file (config busy_processor))) = None \<and>
   mkdir quiet_world (path_parent (log_file (config busy_processor))) = None \<and>
   running busy_processor \<and>
   length (fst (projr (worker_loop 0 [disk_full_world, quiet_world] busy_processor))) = 2"
proof -
  have fp: "file_path track_task = ''/w/a.wav''" by (simp add: track_task_def task_of_def)
  have r: "raised_in_try busy_processor disk_full_world track_task
             = Some ''[Errno 28] No space left on device''"
    by (simp add: raised_in_try_def fp disk_full_try)
  have n: "\<not> auto_delete_original (config busy_processor)" "running busy_processor"
    by (simp_all add: busy_processor_eq idle_processor_eq default_config_def)
  have v: "\<not> fst (validate_audio_file missing_world (file_path track_task))"
    "snd (validate_audio_file missing_world (file_path track_task)) = ''File does not exist''"
    by (simp_all add: fp missing_world_def track_valid_variants)
  have m: "\<forall>x \<in> set [disk_full_world, quiet_world].
      mkdir x (path_parent (log_file (config busy_processor))) = None"
    by (simp add: disk_full_world_def quiet_world_calls)
  from exceptions_caught [of busy_processor disk_full_world track_task
      "''[Errno 28] No space left on device''" missing_world track_task busy_processor
      "[disk_full_world, quiet_world]" busy_processor 0] r n v m
  show ?thesis by simp
qed

text \<open>
  Claim C7, as stated, fails: the write of the processed file fails for lack of disk
  space; the worker records the failed result and the queue is empty afterwards, the task
  has not been enqueued again.
\<close>

theorem no_retry_counterexample:
  "\<not> success (completed_result (fst (projr (worker_iteration 0 disk_full_world busy_processor))))
   \<and> errors (completed_result (fst (projr (worker_iteration 0 disk_full_world busy_processor))))
       = [''[Errno 28] No space left on device'']
   \<and> queue (pqueue (snd (projr (worker_iteration 0 disk_full_world busy_processor)))) = []"
  by (simp add: disk_full_iteration failed_result_def after_failure_def initial_result_def)

text \<open>
  Claim C7, amended. The worker never enqueues: an iteration leaves the queue as
  \<^verbatim>\<open>dequeue\<close> left it and the task counter unchanged, whatever the outcome of the task.
  Over any run of the loop the tasks first in the queue are exactly the tasks of the
  recorded results together with the tasks still queued, so every task is processed at
  most once and a failure of any kind is final.
\<close>

theorem no_retry:
  "(worker_iteration wid w P = Inr (ev, P') \<longrightarrow>
      pqueue P' = snd (dequeue (pqueue P)) \<and>
      task_id (pqueue P') = task_id (pqueue P) \<and>
      length (queue (pqueue P')) \<le> length (queue (pqueue P))) \<and>
   (worker_loop wid ws Q = Inr (evs, Q') \<longrightarrow>
      task_id (pqueue Q') = task_id (pqueue Q) \<and>
      mset (map entry_item (queue (pqueue Q)))
        = mset (map res_task (completed_results evs))
          + mset (map entry_item (queue (pqueue Q'))))"
proof -
  have "pqueue P' = snd (dequeue (pqueue P)) \<and>
      task_id (pqueue P') = task_id (pqueue P) \<and>
      length (queue (pqueue P')) \<le> length (queue (pqueue P))"
    if "worker_iteration wid w P = Inr (ev, P')"
    using worker_iteration_frame(3) [OF that] by (simp add: dequeue_frame)
  then show ?thesis using worker_loop_tasks [of wid ws Q evs Q'] by blast
qed

text \<open>
  The amended C7 at the task that fails on a full disk.
\<close>

theorem no_retry_witness:
  "worker_iteration 0 disk_full_world busy_processor
     = Inr (Completed failed_result True, after_failure) \<and>
   worker_loop 0 [disk_full_world, quiet_world] busy_processor
     = Inr ([Completed failed_result True, Slept (1 / 2)], after_failure) \<and>
   \<not> success failed_result \<and>
   pqueue after_failure = snd (dequeue (pqueue busy_processor)) \<and>
   task_id (pqueue after_failure) = task_id (pqueue busy_processor) \<and>
   mset (map entry_item (queue (pqueue busy_processor)))
     = mset (map res_task (completed_results [Completed failed_result True, Slept (1 / 2)]))
       + mset (map entry_item (queue (pqueue after_failure)))"
proof -
  have f: "\<not> success failed_result"
    by (simp add: failed_result_def initial_result_def)
  from no_retry [of 0 disk_full_world busy_processor "Completed failed_result True"
      after_failure "[disk_full_world, quiet_world]" busy_processor
      "[Completed failed_result True, Slept (1 / 2)]" after_failure]
    disk_full_iteration disk_full_loop f
  show ?thesis by blast
qed

text \<open>
  Claim C8, as stated, fails: \<^verbatim>\<open>dequeue\<close> takes no timeout and returns \<^verbatim>\<open>None\<close> at once
  on an empty queue; it is the worker that sleeps half a second and polls again.
\<close>

theorem worker_polls_counterexample:
  "dequeue (pqueue idle_processor) = (None, pqueue idle_processor) \<and>
   worker_iteration 0 quiet_world idle_processor = Inr (Slept (1 / 2), idle_processor)"
proof -
  have "queue (pqueue idle_processor) = []" by (simp add: idle_processor_eq)
  then show ?thesis by (simp add: dequeue_empty worker_iteration_empty)
qed

text \<open>
  Claim C8, amended. On an empty queue \<^verbatim>\<open>dequeue\<close> returns \<^verbatim>\<open>None\<close> and leaves the
  queue unchanged; on a non-empty queue it returns the task of an entry with the least
  key and removes that entry. A worker iteration that finds the queue empty sleeps for
  half a second and changes nothing.
\<close>

theorem dequeue_nonblocking:
  "(queue q = [] \<longrightarrow> dequeue q = (None, q)) \<and>
   (queue q' \<noteq> [] \<longrightarrow>
      (\<exists>e \<in> set (queue q').
         dequeue q' = (Some (entry_item e), q'\<lparr>queue := remove1 e (queue q')\<rparr>) \<and>
         (\<forall>x \<in> set (queue q'). entry_key e \<le> entry_key x))) \<and>
   (queue (pqueue P) = [] \<longrightarrow> worker_iteration wid w P = Inr (Slept (1 / 2), P))"
  using dequeue_empty dequeue_nonempty worker_iteration_empty by blast

text \<open>
  The amended C8 at the empty queue and at the queue holding the track.
\<close>

theorem dequeue_nonblocking_witness:
  "queue new_queue = [] \<and> dequeue new_queue = (None, new_queue) \<and>
   queue (pqueue busy_processor) \<noteq> [] \<and>
   fst (dequeue (pqueue busy_processor)) = Some track_task \<and>
   queue (pqueue idle_processor) = [] \<and>
   worker_iteration 0 quiet_world idle_processor = Inr (Slept (1 / 2), idle_processor)"
proof -
  have h: "queue new_queue = []" "queue (pqueue busy_processor) \<noteq> []"
    "queue (pqueue idle_processor) = []"
    by (simp_all add: new_queue_def busy_processor_eq idle_processor_eq)
  have only: "set (queue (pqueue busy_processor)) = {(0, 1, track_task)}"
    by (simp add: busy_processor_eq)
  from dequeue_nonblocking [of new_queue "pqueue busy_processor" idle_processor 0 quiet_world] h
  have "dequeue new_queue = (None, new_queue)"
    and "\<exists>e \<in> set (queue (pqueue busy_processor)).
           dequeue (pqueue busy_processor)
             = (Some (entry_item e),
                (pqueue busy_processor)\<lparr>queue := remove1 e (queue (pqueue busy_processor))\<rparr>)"
    and "worker_iteration 0 quiet_world idle_processor = Inr (Slept (1 / 2), idle_processor)"
    by blast+
  with h only show ?thesis by (auto simp: entry_item_def)
qed

text \<open>
  Claim C9. An iteration that completes a task adds 1 to \<^verbatim>\<open>processed_files\<close>, adds 1 to
  \<^verbatim>\<open>failed_files\<close> exactly when the result is unsuccessful, and adds the processing time
  to the total. Over a run of the loop \<^verbatim>\<open>failed_files\<close> stays at most
  \<^verbatim>\<open>processed_files\<close>; from fresh statistics the two counters are the number of
  completed tasks and the number of unsuccessful ones, and the average reported by
  \<^verbatim>\<open>get_stats\<close> is the total time over the number of completed tasks, failed ones
  included, or 0 when there is none.
\<close>

theorem statistics_counters:
  "(worker_iteration wid w P = Inr (Completed res written, P') \<longrightarrow>
      stat_processed_files (stats P') = stat_processed_files (stats P) + 1 \<and>
      stat_failed_files (stats P')
        = stat_failed_files (stats P) + (if success res then 0 else 1) \<and>
      stat_total_processing_time (stats P')
        = stat_total_processing_time (stats P) + processing_time res) \<and>
   (worker_loop wid ws Q = Inr (evs, Q') \<longrightarrow>
      (stat_failed_files (stats Q) \<le> stat_processed_files (stats Q) \<longrightarrow>
         stat_failed_files (stats Q') \<le> stat_processed_files (stats Q')) \<and>
      (stats Q = initial_stats \<longrightarrow>
         stat_processed_files (stats Q') = int (length (completed_results evs)) \<and>
         stat_failed_files (stats Q')
           = int (length (filter (\<lambda>r. \<not> success r) (completed_results evs))) \<and>
         avg_processing_time (get_stats Q')
           = (if completed_results evs = [] then 0
              else sum_list (map processing_time (completed_results evs))
                     / real (length (completed_results evs))))) \<and>
   report_stats (get_stats Q') = stats Q' \<and>
   avg_processing_time (get_stats Q')
     = (if stat_processed_files (stats Q') > 0
        then stat_total_processing_time (stats Q') / real_of_int (stat_processed_files (stats Q'))
        else 0)"
proof -
  have step: "stat_processed_files (stats P') = stat_processed_files (stats P) + 1 \<and>
      stat_failed_files (stats P')
        = stat_failed_files (stats P) + (if success res then 0 else 1) \<and>
      stat_total_processing_time (stats P')
        = stat_total_processing_time (stats P) + processing_time res"
    if "worker_iteration wid w P = Inr (Completed res written, P')"
    using worker_iteration_completed(1-3) [OF that] by simp
  have loop: "(stat_failed_files (stats Q) \<le> stat_processed_files (stats Q) \<longrightarrow>
         stat_failed_files (stats Q') \<le> stat_processed_files (stats Q')) \<and>
      (stats Q = initial_stats \<longrightarrow>
         stat_processed_files (stats Q') = int (length (completed_results evs)) \<and>
         stat_failed_files (stats Q')
           = int (length (filter (\<lambda>r. \<not> success r) (completed_results evs))) \<and>
         avg_processing_time (get_stats Q')
           = (if completed_results evs = [] then 0
              else sum_list (map processing_time (completed_results evs))
                     / real (length (completed_results evs))))"
    if l: "worker_loop wid ws Q = Inr (evs, Q')"
  proof -
    note st = worker_loop_stats [OF l]
    have le: "length (filter (\<lambda>r. \<not> success r) (completed_results evs))
                \<le> length (completed_results evs)" by simp
    have inv: "stat_failed_files (stats Q') \<le> stat_processed_files (stats Q')"
      if "stat_failed_files (stats Q) \<le> stat_processed_files (stats Q)"
      using st that le by linarith
    have fresh: "stat_processed_files (stats Q') = int (length (completed_results evs)) \<and>
         stat_failed_files (stats Q')
           = int (length (filter (\<lambda>r. \<not> success r) (completed_results evs))) \<and>
         avg_processing_time (get_stats Q')
           = (if completed_results evs = [] then 0
              else sum_list (map processing_time (completed_results evs))
                     / real (length (completed_results evs)))"
      if "stats Q = initial_stats"
      using st that by (simp add: initial_stats_def get_stats_def)
    from inv fresh show ?thesis by blast
  qed
  have rep: "report_stats (get_stats Q') = stats Q' \<and>
   avg_processing_time (get_stats Q')
     = (if stat_processed_files (stats Q') > 0
        then stat_total_processing_time (stats Q') / real_of_int (stat_processed_files (stats Q'))
        else 0)"
    by (simp add: get_stats_def)
  from step loop rep show ?thesis by blast
qed

text \<open>
  The statistics theorem at the task that fails on a full disk.
\<close>

theorem statistics_counters_witness:
  "worker_iteration 0 disk_full_world busy_processor
     = Inr (Completed failed_result True, after_failure) \<and>
   worker_loop 0 [disk_full_world, quiet_world] busy_processor
     = Inr ([Completed failed_result True, Slept (1 / 2)], after_failure) \<and>
   stats busy_processor = initial_stats \<and>
   stat_failed_files (stats busy_processor) \<le> stat_processed_files (stats busy_processor) \<and>
   stat_processed_files (stats after_failure) = 1 \<and>
   stat_failed_files (stats after_failure) = 1 \<and>
   avg_processing_time (get_stats after_failure) = 1"
proof -
  have s: "stats busy_processor = initial_stats"
    "stat_failed_files (stats busy_processor) \<le> stat_processed_files (stats busy_processor)"
    by (simp_all add: busy_processor_eq idle_processor_eq initial_stats_def)
  have f: "\<not> success failed_result" "processing_time failed_result = 1"
    by (simp_all add: failed_result_def initial_result_def)
  from statistics_counters [of 0 disk_full_world busy_processor failed_result True
      after_failure "[disk_full_world, quiet_world]" busy_processor
      "[Completed failed_result True, Slept (1 / 2)]" after_failure]
    disk_full_iteration disk_full_loop s
  have "stat_processed_files (stats after_failure)
          = int (length (completed_results [Completed failed_result True, Slept (1 / 2)])) \<and>
        stat_failed_files (stats after_failure)
          = int (length (filter (\<lambda>r. \<not> success r)
                   (completed_results [Completed failed_result True, Slept (1 / 2)]))) \<and>
        avg_processing_time (get_stats after_failure)
          = (if completed_results [Completed failed_result True, Slept (1 / 2)] = [] then 0
             else sum_list (map processing_time
                    (completed_results [Completed failed_result True, Slept (1 / 2)]))
                  / real (length (completed_results [Completed failed_result True, Slept (1 / 2)])))"
    by blast
  with f disk_full_iteration disk_full_loop s show ?thesis by simp
qed

end
